theory Spec2Isabelle
  imports Complex_Main
begin

section \<open>Data model\<close>

text \<open>
  The annotation pipeline of \<^verbatim>\<open>multilingual/merrant\<close> works on tokens produced by an
  external tagger. A token exposes its text, a lemma identifier, a coarse part-of-speech
  tag, a morphological feature map and two lexical flags. The part-of-speech tag is
  drawn from the closed universal tag set of the tagger; the empty tag stands for a
  token the tagger left untagged.
\<close>

datatype pos_tag =
  ADJ | ADP | ADV | AUX | CCONJ | CONJ | DET | INTJ | NOUN | NUM | PART | PRON
  | PROPN | PUNCT | SCONJ | SYM | VERB | POS_X | SPACE | EOL | NO_TAG

fun pos_name :: "pos_tag \<Rightarrow> string" where
  "pos_name ADJ = ''ADJ''"
| "pos_name ADP = ''ADP''"
| "pos_name ADV = ''ADV''"
| "pos_name AUX = ''AUX''"
| "pos_name CCONJ = ''CCONJ''"
| "pos_name CONJ = ''CONJ''"
| "pos_name DET = ''DET''"
| "pos_name INTJ = ''INTJ''"
| "pos_name NOUN = ''NOUN''"
| "pos_name NUM = ''NUM''"
| "pos_name PART = ''PART''"
| "pos_name PRON = ''PRON''"
| "pos_name PROPN = ''PROPN''"
| "pos_name PUNCT = ''PUNCT''"
| "pos_name SCONJ = ''SCONJ''"
| "pos_name SYM = ''SYM''"
| "pos_name VERB = ''VERB''"
| "pos_name POS_X = ''X''"
| "pos_name SPACE = ''SPACE''"
| "pos_name EOL = ''EOL''"
| "pos_name NO_TAG = ''''"

text \<open>
  \<open>lemma_id\<close> is the token attribute \<^verbatim>\<open>lemma\<close> (an integer identifier), \<open>pos\<close> the
  attribute \<^verbatim>\<open>pos\<close>; the string attribute \<^verbatim>\<open>pos_\<close>, here \<open>pos_str\<close>, is the name of that tag.
  \<open>morph\<close> lists, for each feature name, the values of the feature.
\<close>

record 'c token =
  tok_text :: "'c list"
  lemma_id :: nat
  pos :: pos_tag
  morph :: "(string \<times> string list) list"
  is_punct :: bool
  is_digit :: bool

definition pos_str :: "'c token \<Rightarrow> string" where
  "pos_str tok = pos_name (pos tok)"

text \<open>
  Python strings are sequences of Unicode code points: a text is a list over the type
  \<open>'c\<close> of code points, and its length counts code points. \<^verbatim>\<open>str.lower()\<close> belongs to
  the language, not to the repository; it is the parameter \<open>lower\<close> of every function
  that lower-cases a text. The token attribute \<^verbatim>\<open>lower_\<close>, here \<open>lower_text\<close>, is the
  lower-cased token text.
\<close>

definition lower_text :: "('c list \<Rightarrow> 'c list) \<Rightarrow> 'c token \<Rightarrow> 'c list" where
  "lower_text lower tok = lower (tok_text tok)"

text \<open>
  \<^verbatim>\<open>token.morph.get(field_name)\<close>: the values of a feature, the empty list when the
  token does not carry the feature.
\<close>

definition morph_get :: "'c token \<Rightarrow> string \<Rightarrow> string list" where
  "morph_get tok field_name =
     (case map_of (morph tok) field_name of None \<Rightarrow> [] | Some vs \<Rightarrow> vs)"

text \<open>
  A document is the untokenized text with its tokens. A span is a view of a document:
  the half-open token range from \<open>start\<close> to \<open>stop\<close> (the attribute \<^verbatim>\<open>end\<close>).
\<close>

record 'c doc =
  doc_text :: "'c list"
  doc_tokens :: "'c token list"

record 'c span =
  span_doc :: "'c doc"
  start :: int
  stop :: int

text \<open>
  Slicing a document, \<^verbatim>\<open>doc[i:j]\<close>, for indices \<open>0 \<le> i\<close> and \<open>0 \<le> j\<close>, the only
  ones the aligner produces.
\<close>

definition doc_slice :: "'c doc \<Rightarrow> int \<Rightarrow> int \<Rightarrow> 'c span" where
  "doc_slice d i j = \<lparr>span_doc = d, start = i, stop = j\<rparr>"

definition span_tokens :: "'c span \<Rightarrow> 'c token list" where
  "span_tokens sp =
     take (nat (stop sp - start sp)) (drop (nat (start sp)) (doc_tokens (span_doc sp)))"

definition span_len :: "'c span \<Rightarrow> nat" where
  "span_len sp = nat (stop sp - start sp)"

definition UNK_TAG_NAME :: string where
  "UNK_TAG_NAME = ''UNK''"

record 'c EditSpan =
  source_span :: "'c span"
  target_span :: "'c span"
  tag :: string

definition new_EditSpan :: "'c span \<Rightarrow> 'c span \<Rightarrow> 'c EditSpan" where
  "new_EditSpan s t = \<lparr>source_span = s, target_span = t, tag = UNK_TAG_NAME\<rparr>"

definition is_deletion :: "'c EditSpan \<Rightarrow> bool" where
  "is_deletion e = (span_len (target_span e) = 0)"

definition is_insertion :: "'c EditSpan \<Rightarrow> bool" where
  "is_insertion e = (span_len (source_span e) = 0)"

definition get_label :: "'c EditSpan \<Rightarrow> string" where
  "get_label e =
     (if is_deletion e then ''U:'' @ tag e
      else if is_insertion e then ''M:'' @ tag e
      else ''R:'' @ tag e)"

record 'c TargetSentence =
  ts_doc :: "'c doc"
  edit_spans :: "'c EditSpan list"

record 'c Annotation =
  source_doc :: "'c doc"
  target_sentences :: "'c TargetSentence list"

section \<open>Sequence aligner\<close>

text \<open>
  Costs are Python floats; they are modelled as exact rationals, the float literal
  \<^verbatim>\<open>0.1\<close> as \<open>1/10\<close>. Sums of costs are exact here and rounded in double precision,
  so two sums that are equal as rationals can be ordered by their rounding; what is
  proved below of the backtrace and the span loop holds for every matrix.

  The inner loop of \<^verbatim>\<open>levenshtein_matrix\<close> appends one cell to the current row for
  each target token, reading the previous row at \<open>j\<close> and \<open>j + 1\<close> and the current row
  at \<open>j\<close>.
\<close>

definition lev_cell ::
  "('a \<Rightarrow> 'a \<Rightarrow> rat) \<Rightarrow> 'a \<Rightarrow> rat list \<Rightarrow> rat list \<Rightarrow> nat \<times> 'a \<Rightarrow> rat list" where
  "lev_cell compare_func c1 previous_row current_row jc =
     (let j = fst jc; c2 = snd jc;
          insertions = previous_row ! (j + 1) + 1;
          deletions = current_row ! j + 1;
          substitutions = previous_row ! j + compare_func c1 c2
      in current_row @ [min insertions (min deletions substitutions)])"

definition lev_row ::
  "('a \<Rightarrow> 'a \<Rightarrow> rat) \<Rightarrow> 'a list \<Rightarrow> rat list \<Rightarrow> nat \<times> 'a \<Rightarrow> rat list" where
  "lev_row compare_func target_tokens previous_row ic =
     foldl (lev_cell compare_func (snd ic) previous_row) [of_nat (fst ic + 1)]
       (enumerate 0 target_tokens)"

definition lev_step ::
  "('a \<Rightarrow> 'a \<Rightarrow> rat) \<Rightarrow> 'a list \<Rightarrow> rat list \<times> rat list list \<Rightarrow> nat \<times> 'a
     \<Rightarrow> rat list \<times> rat list list" where
  "lev_step compare_func target_tokens st ic =
     (let current_row = lev_row compare_func target_tokens (fst st) ic
      in (current_row, snd st @ [current_row]))"

definition levenshtein_matrix ::
  "'a list \<Rightarrow> 'a list \<Rightarrow> ('a \<Rightarrow> 'a \<Rightarrow> rat) \<Rightarrow> rat list list" where
  "levenshtein_matrix source_tokens target_tokens compare_func =
     (let previous_row = map of_nat [0..<length target_tokens + 1]
      in snd (foldl (lev_step compare_func target_tokens) (previous_row, [previous_row])
                (enumerate 0 source_tokens)))"

definition levenshtein_distance ::
  "'a list \<Rightarrow> 'a list \<Rightarrow> ('a \<Rightarrow> 'a \<Rightarrow> rat) \<Rightarrow> rat" where
  "levenshtein_distance source_tokens target_tokens compare_func =
     last (last (levenshtein_matrix source_tokens target_tokens compare_func))"

definition token_sub_cost :: "('c list \<Rightarrow> 'c list) \<Rightarrow> 'c token \<Rightarrow> 'c token \<Rightarrow> rat" where
  "token_sub_cost lower source_token target_token =
     (if tok_text source_token = tok_text target_token then 0
      else if lower (tok_text source_token) = lower (tok_text target_token) then 1 / 10
      else
        let lemma_cost = 3 / 10 * (if lemma_id source_token \<noteq> lemma_id target_token then 1 else 0);
            pos_cost = 5 / 10 * (if pos source_token \<noteq> pos target_token then 1 else 0)
        in 2 / 10 + lemma_cost + pos_cost)"

text \<open>
  The backtrace loop of \<^verbatim>\<open>get_edit_spans\<close>, from \<open>(row, col)\<close> down to the first row or
  column; \<open>align\<close> collects the alignment points.
\<close>

function backtrace ::
  "rat list list \<Rightarrow> nat \<Rightarrow> nat \<Rightarrow> (nat \<times> nat) list \<Rightarrow> (nat \<times> nat) list" where
  "backtrace lev_mat row col align =
     (if row * col = 0 then align
      else if lev_mat ! (row - 1) ! col < lev_mat ! row ! col
        then backtrace lev_mat (row - 1) col align
      else if lev_mat ! row ! (col - 1) < lev_mat ! row ! col
        then backtrace lev_mat row (col - 1) align
      else if lev_mat ! (row - 1) ! (col - 1) = lev_mat ! row ! col
        then backtrace lev_mat (row - 1) (col - 1) (align @ [(row - 1, col - 1)])
      else backtrace lev_mat (row - 1) (col - 1) align)"
  by pat_completeness auto
termination
  by (relation "measure (\<lambda>(lev_mat, row, col, align). row + col)") auto

text \<open>
  The second loop: one step per alignment point. The state is the previous source and
  target position and the spans collected so far.
\<close>

definition span_step ::
  "'c doc \<Rightarrow> 'c doc \<Rightarrow> int \<times> int \<times> 'c EditSpan list \<Rightarrow> nat \<times> nat \<Rightarrow> int \<times> int \<times> 'c EditSpan list" where
  "span_step source_tokens target_tokens st p =
     (let prev_source_pos = fst st; prev_target_pos = fst (snd st); spans = snd (snd st);
          source_pos = int (fst p); target_pos = int (snd p);
          spans' =
            (if prev_source_pos + 1 \<noteq> source_pos \<or> prev_target_pos + 1 \<noteq> target_pos
             then spans @ [new_EditSpan
                     (doc_slice source_tokens (prev_source_pos + 1) source_pos)
                     (doc_slice target_tokens (prev_target_pos + 1) target_pos)]
             else spans)
      in (source_pos, target_pos, spans'))"

definition alignment_points ::
  "('c list \<Rightarrow> 'c list) \<Rightarrow> 'c doc \<Rightarrow> 'c doc \<Rightarrow> (nat \<times> nat) list" where
  "alignment_points lower source_tokens target_tokens =
     (let lev_mat = levenshtein_matrix (doc_tokens source_tokens) (doc_tokens target_tokens)
                      (token_sub_cost lower)
      in rev (backtrace lev_mat (length (doc_tokens source_tokens))
                (length (doc_tokens target_tokens)) []))"

definition get_edit_spans ::
  "('c list \<Rightarrow> 'c list) \<Rightarrow> 'c doc \<Rightarrow> 'c doc \<Rightarrow> 'c EditSpan list" where
  "get_edit_spans lower source_tokens target_tokens =
     (let align = alignment_points lower source_tokens target_tokens
                    @ [(length (doc_tokens source_tokens), length (doc_tokens target_tokens))]
      in snd (snd (foldl (span_step source_tokens target_tokens) (-1, -1, []) align)))"

section \<open>Span classifier\<close>

datatype error = ValueError string | ZeroDivisionError | TypeError | AttributeError

definition is_orth_error ::
  "('c list \<Rightarrow> 'c list) \<Rightarrow> 'c token list \<Rightarrow> 'c token list \<Rightarrow> bool" where
  "is_orth_error lower source_tokens target_tokens =
     (concat (map (lower_text lower) source_tokens) = concat (map (lower_text lower) target_tokens))"

definition is_wo_error ::
  "('c list \<Rightarrow> 'c list) \<Rightarrow> 'c token list \<Rightarrow> 'c token list \<Rightarrow> bool" where
  "is_wo_error lower source_tokens target_tokens =
     (set (map (lower_text lower) source_tokens) = set (map (lower_text lower) target_tokens))"

definition get_nonpunct_tokens :: "'c token list \<Rightarrow> 'c token list" where
  "get_nonpunct_tokens tokens = filter (\<lambda>tok. \<not> is_punct tok) tokens"

definition is_punct_error ::
  "('c list \<Rightarrow> 'c list) \<Rightarrow> 'c token list \<Rightarrow> 'c token list \<Rightarrow> bool" where
  "is_punct_error lower source_tokens target_tokens =
     is_orth_error lower (get_nonpunct_tokens source_tokens) (get_nonpunct_tokens target_tokens)"

definition pos_is_subset :: "'c token list \<Rightarrow> string set \<Rightarrow> bool" where
  "pos_is_subset tokens allowed_pos = list_all (\<lambda>tok. pos_str tok \<in> allowed_pos) tokens"

definition is_aux_span :: "'c token list \<Rightarrow> bool" where
  "is_aux_span tokens = pos_is_subset tokens {''AUX''}"

definition is_verbal_span :: "'c token list \<Rightarrow> bool" where
  "is_verbal_span tokens =
     (pos_is_subset tokens {''AUX'', ''PART'', ''VERB''}
      \<and> list_ex (\<lambda>tok. pos_str tok = ''VERB'') tokens)"

definition is_noun_span :: "'c token list \<Rightarrow> bool" where
  "is_noun_span tokens =
     (pos_is_subset tokens {''DET'', ''NOUN''}
      \<and> list_ex (\<lambda>tok. pos_str tok = ''NOUN'') tokens)"

text \<open>
  \<^verbatim>\<open>_match_up_pos_tokens\<close> is a generator; the list holds the pairs in the order in
  which it yields them.
\<close>

definition match_up_pos_tokens ::
  "'c token list \<Rightarrow> 'c token list \<Rightarrow> string \<Rightarrow> ('c token \<times> 'c token) list" where
  "match_up_pos_tokens source_tokens target_tokens p =
     (let pos_source_tokens = filter (\<lambda>tok. pos_str tok = p) source_tokens;
          pos_target_tokens = filter (\<lambda>tok. pos_str tok = p) target_tokens
      in filter (\<lambda>st. lemma_id (fst st) = lemma_id (snd st))
           (zip pos_source_tokens pos_target_tokens))"

definition morph_match :: "'c token \<Rightarrow> 'c token \<Rightarrow> string \<Rightarrow> bool" where
  "morph_match source_token target_token field_name =
     (concat (morph_get source_token field_name) = concat (morph_get target_token field_name))"

text \<open>
  A set of part-of-speech names is kept as the list of the distinct names; it has one
  element exactly when the list has length one, and that element is its head.
\<close>

definition get_one_sided_tag :: "'c token list \<Rightarrow> string" where
  "get_one_sided_tag tokens =
     (if is_aux_span tokens then ''VERB:TENSE''
      else
        let pos_set = remdups (map pos_str tokens)
        in if length pos_set = 1 then hd pos_set
           else if is_verbal_span tokens then ''VERB''
           else ''OTHER'')"

text \<open>The two loops of \<^verbatim>\<open>_get_two_sided_tag\<close> over the matched pairs, with their early returns.\<close>

fun noun_pairs_tag :: "('c token \<times> 'c token) list \<Rightarrow> string" where
  "noun_pairs_tag [] = ''NOUN''"
| "noun_pairs_tag ((source_noun, target_noun) # rest) =
     (if \<not> morph_match source_noun target_noun ''Number'' then ''NOUN:NUM''
      else noun_pairs_tag rest)"

fun verb_pairs_tag :: "('c token \<times> 'c token) list \<Rightarrow> string" where
  "verb_pairs_tag [] = ''VERB''"
| "verb_pairs_tag ((source_verb, target_verb) # rest) =
     (if \<not> morph_match source_verb target_verb ''Tense'' then ''VERB:TENSE''
      else if \<not> morph_match source_verb target_verb ''Number''
              \<and> \<not> morph_match source_verb target_verb ''Person'' then ''VERB:SVA''
      else verb_pairs_tag rest)"

definition get_two_sided_tag :: "'c token list \<Rightarrow> 'c token list \<Rightarrow> string" where
  "get_two_sided_tag source_tokens target_tokens =
     (if is_aux_span source_tokens \<and> is_aux_span target_tokens then ''VERB:TENSE''
      else if is_noun_span source_tokens \<and> is_noun_span target_tokens
        then noun_pairs_tag (match_up_pos_tokens source_tokens target_tokens ''NOUN'')
      else if is_verbal_span source_tokens \<and> is_verbal_span target_tokens
        then verb_pairs_tag (match_up_pos_tokens source_tokens target_tokens ''VERB'')
      else
        let target_pos_set = remdups (map pos_str target_tokens)
        in if length target_pos_set = 1
           then (let p = hd target_pos_set in if p = ''AUX'' then ''VERB'' else p)
           else ''OTHER'')"

text \<open>
  The speller is the external \<^verbatim>\<open>suggest\<close> of the spell checker, \<open>None\<close> when no speller
  is configured. The quotient \<^verbatim>\<open>2.0 * lev / (len(source) + len(target))\<close> raises when
  both texts are empty.
\<close>

definition binary_cost :: "'c \<Rightarrow> 'c \<Rightarrow> rat" where
  "binary_cost x y = (if x \<noteq> y then 1 else 0)"

definition get_one2one_tag ::
  "('c list \<Rightarrow> 'c list) \<Rightarrow> ('c list \<Rightarrow> 'c list list) option \<Rightarrow> 'c token \<Rightarrow> 'c token
     \<Rightarrow> error + string" where
  "get_one2one_tag lower aspell source_token target_token =
     (let aspell_suggestions =
            (case aspell of None \<Rightarrow> [] | Some suggest \<Rightarrow> suggest (tok_text source_token))
      in
      if aspell_suggestions \<noteq> []
         \<and> lower (hd aspell_suggestions) \<noteq> lower (tok_text source_token)
      then
        (if lemma_id source_token = lemma_id target_token
         then
           (if pos_str source_token = pos_str target_token
               \<and> pos_str source_token \<in> {''NOUN'', ''VERB''}
            then Inr (pos_str source_token @ '':INFL'')
            else Inr ''MORPH'')
         else
           (if list_ex (\<lambda>aspell_suggestion.
                  lower aspell_suggestion = lower (tok_text target_token)) aspell_suggestions
            then Inr ''SPELL''
            else
              let lev = levenshtein_distance (tok_text source_token) (tok_text target_token)
                          binary_cost
              in if length (tok_text source_token) + length (tok_text target_token) = 0
                 then Inl ZeroDivisionError
                 else
                   let relative_lev =
                         2 * lev / of_nat (length (tok_text source_token)
                                             + length (tok_text target_token))
                   in if relative_lev < 3 / 10 then Inr ''SPELL''
                      else Inr (get_two_sided_tag [source_token] [target_token])))
      else if lemma_id source_token = lemma_id target_token
              \<and> pos source_token \<noteq> pos target_token
        then Inr ''MORPH''
      else Inr (get_two_sided_tag [source_token] [target_token]))"

definition get_regular_tokens :: "'c token list \<Rightarrow> 'c token list" where
  "get_regular_tokens tokens = filter (\<lambda>tok. \<not> is_digit tok \<and> \<not> is_punct tok) tokens"

definition classify_single_span ::
  "('c list \<Rightarrow> 'c list) \<Rightarrow> ('c list \<Rightarrow> 'c list list) option \<Rightarrow> 'c EditSpan
     \<Rightarrow> error + string" where
  "classify_single_span lower aspell edit_span =
     (let src = span_tokens (source_span edit_span);
          tgt = span_tokens (target_span edit_span)
      in
      if is_orth_error lower src tgt then Inr ''ORTH''
      else if is_wo_error lower src tgt then Inr ''WO''
      else if is_punct_error lower src tgt then Inr ''PUNCT''
      else
        let source_regular_tokens = get_regular_tokens src;
            target_regular_tokens = get_regular_tokens tgt
        in
        if is_orth_error lower source_regular_tokens target_regular_tokens then Inr ''NUM''
        else if source_regular_tokens = [] then Inr (get_one_sided_tag target_regular_tokens)
        else if target_regular_tokens = [] then Inr (get_one_sided_tag source_regular_tokens)
        else if length source_regular_tokens = 1 \<and> length target_regular_tokens = 1
          then get_one2one_tag lower aspell (hd source_regular_tokens) (hd target_regular_tokens)
        else Inr (get_two_sided_tag source_regular_tokens target_regular_tokens))"

text \<open>
  The same cascade, returning the rule it ends in and the token lists that rule is
  called with, and the evaluation of that rule.
\<close>

datatype 'c rule_call =
  RuleORTH | RuleWO | RulePUNCT | RuleNUM
  | OneSided "'c token list"
  | One2One "'c token" "'c token"
  | TwoSided "'c token list" "'c token list"

definition rule_invoked :: "('c list \<Rightarrow> 'c list) \<Rightarrow> 'c EditSpan \<Rightarrow> 'c rule_call" where
  "rule_invoked lower edit_span =
     (let src = span_tokens (source_span edit_span);
          tgt = span_tokens (target_span edit_span)
      in
      if is_orth_error lower src tgt then RuleORTH
      else if is_wo_error lower src tgt then RuleWO
      else if is_punct_error lower src tgt then RulePUNCT
      else
        let source_regular_tokens = get_regular_tokens src;
            target_regular_tokens = get_regular_tokens tgt
        in
        if is_orth_error lower source_regular_tokens target_regular_tokens then RuleNUM
        else if source_regular_tokens = [] then OneSided target_regular_tokens
        else if target_regular_tokens = [] then OneSided source_regular_tokens
        else if length source_regular_tokens = 1 \<and> length target_regular_tokens = 1
          then One2One (hd source_regular_tokens) (hd target_regular_tokens)
        else TwoSided source_regular_tokens target_regular_tokens)"

fun run_rule ::
  "('c list \<Rightarrow> 'c list) \<Rightarrow> ('c list \<Rightarrow> 'c list list) option \<Rightarrow> 'c rule_call
     \<Rightarrow> error + string" where
  "run_rule lower aspell RuleORTH = Inr ''ORTH''"
| "run_rule lower aspell RuleWO = Inr ''WO''"
| "run_rule lower aspell RulePUNCT = Inr ''PUNCT''"
| "run_rule lower aspell RuleNUM = Inr ''NUM''"
| "run_rule lower aspell (OneSided tokens) = Inr (get_one_sided_tag tokens)"
| "run_rule lower aspell (One2One s t) = get_one2one_tag lower aspell s t"
| "run_rule lower aspell (TwoSided ss ts) = Inr (get_two_sided_tag ss ts)"

text \<open>\<^verbatim>\<open>Classifier.classify\<close>: align, then tag every span in turn.\<close>

fun classify_spans ::
  "('c list \<Rightarrow> 'c list) \<Rightarrow> ('c list \<Rightarrow> 'c list list) option \<Rightarrow> 'c EditSpan list
     \<Rightarrow> error + 'c EditSpan list" where
  "classify_spans lower aspell [] = Inr []"
| "classify_spans lower aspell (edit_span # rest) =
     (case classify_single_span lower aspell edit_span of
        Inl e \<Rightarrow> Inl e
      | Inr t \<Rightarrow>
          (case classify_spans lower aspell rest of
             Inl e \<Rightarrow> Inl e
           | Inr rest' \<Rightarrow> Inr (edit_span\<lparr>tag := t\<rparr> # rest')))"

definition classify ::
  "('c list \<Rightarrow> 'c list) \<Rightarrow> ('c list \<Rightarrow> 'c list list) option \<Rightarrow> 'c doc \<Rightarrow> 'c doc
     \<Rightarrow> error + 'c EditSpan list" where
  "classify lower aspell source_doc' target_doc =
     classify_spans lower aspell (get_edit_spans lower source_doc' target_doc)"

section \<open>Annotator\<close>

text \<open>
  The tagger and the speller are loaded by name from outside; \<open>load_spacy\<close> and
  \<open>load_aspell\<close> stand for the two loaders.
\<close>

record 'c GenericClassifier =
  cls_aspell_lang :: "string option"
  cls_aspell :: "('c list \<Rightarrow> 'c list list) option"

record 'c Annotator =
  spacy_model :: string
  aspell_lang :: "string option"
  initialized :: bool
  nlp :: "('c list \<Rightarrow> 'c doc) option"
  classifier :: "'c GenericClassifier option"

definition new_GenericClassifier :: "string option \<Rightarrow> 'c GenericClassifier" where
  "new_GenericClassifier lang = \<lparr>cls_aspell_lang = lang, cls_aspell = None\<rparr>"

definition classifier_initialize ::
  "(string \<Rightarrow> 'c list \<Rightarrow> 'c list list) \<Rightarrow> 'c GenericClassifier
     \<Rightarrow> 'c GenericClassifier" where
  "classifier_initialize load_aspell c =
     (case cls_aspell_lang c of
        None \<Rightarrow> c
      | Some lang \<Rightarrow> c\<lparr>cls_aspell := Some (load_aspell lang)\<rparr>)"

definition new_Annotator :: "string \<Rightarrow> string option \<Rightarrow> 'c Annotator" where
  "new_Annotator model lang =
     \<lparr>spacy_model = model, aspell_lang = lang, initialized = False, nlp = None,
      classifier = None\<rparr>"

definition initialize ::
  "(string \<Rightarrow> 'c list \<Rightarrow> 'c doc) \<Rightarrow> (string \<Rightarrow> 'c list \<Rightarrow> 'c list list)
     \<Rightarrow> 'c Annotator \<Rightarrow> 'c Annotator" where
  "initialize load_spacy load_aspell a =
     a\<lparr>nlp := Some (load_spacy (spacy_model a)),
       classifier := Some (classifier_initialize load_aspell
                             (new_GenericClassifier (aspell_lang a))),
       initialized := True\<rparr>"

text \<open>
  The argument \<^verbatim>\<open>target_sentences\<close> is declared a sequence of strings; a caller can pass
  a single string instead.
\<close>

datatype 'c targets_arg = SingleString "'c list" | StringSeq "'c list list"

fun annotate_targets ::
  "('c list \<Rightarrow> 'c list) \<Rightarrow> ('c list \<Rightarrow> 'c doc) \<Rightarrow> 'c GenericClassifier option \<Rightarrow> 'c doc
     \<Rightarrow> 'c list list \<Rightarrow> error + 'c TargetSentence list" where
  "annotate_targets lower tokenize cls source_doc' [] = Inr []"
| "annotate_targets lower tokenize cls source_doc' (target_sentence # rest) =
     (let target_doc = tokenize target_sentence
      in case cls of
           None \<Rightarrow> Inl AttributeError
         | Some c \<Rightarrow>
             (case classify lower (cls_aspell c) source_doc' target_doc of
                Inl e \<Rightarrow> Inl e
              | Inr spans \<Rightarrow>
                  (case annotate_targets lower tokenize cls source_doc' rest of
                     Inl e \<Rightarrow> Inl e
                   | Inr rest' \<Rightarrow> Inr (\<lparr>ts_doc = target_doc, edit_spans = spans\<rparr> # rest'))))"

definition annotate ::
  "('c list \<Rightarrow> 'c list) \<Rightarrow> 'c Annotator \<Rightarrow> 'c list \<Rightarrow> 'c targets_arg
     \<Rightarrow> error + 'c Annotation" where
  "annotate lower a source_sentence targets =
     (if \<not> initialized a then Inl (ValueError ''Annotator not initialized.'')
      else
        case targets of
          SingleString s \<Rightarrow> Inl (ValueError ''target_sentences must be a list, not a string.'')
        | StringSeq target_strings \<Rightarrow>
            (case nlp a of
               None \<Rightarrow> Inl TypeError
             | Some tokenize \<Rightarrow>
                 (let source_doc' = tokenize source_sentence
                  in case annotate_targets lower tokenize (classifier a) source_doc' target_strings of
                       Inl e \<Rightarrow> Inl e
                     | Inr tss \<Rightarrow> Inr \<lparr>source_doc = source_doc', target_sentences = tss\<rparr>)))"

section \<open>Formatters\<close>

text \<open>
  The formatters return the encoded output. A text is here the byte string of its
  encoding, a list over \<open>char\<close>; joining texts and encoding them commute.
  \<^verbatim>\<open>"%d"\<close> renders an integer in decimal; \<^verbatim>\<open>sep.join(lines)\<close> puts the separator
  between the lines.
\<close>

definition digit_char :: "nat \<Rightarrow> char" where
  "digit_char d = ''0123456789'' ! d"

fun decimal :: "nat \<Rightarrow> string" where
  "decimal n =
     (if 10 \<le> n then decimal (n div 10) @ [digit_char (n mod 10)] else [digit_char n])"

definition format_d :: "int \<Rightarrow> string" where
  "format_d i = (if 0 \<le> i then decimal (nat i) else CHR ''-'' # decimal (nat (- i)))"

fun join :: "string \<Rightarrow> string list \<Rightarrow> string" where
  "join sep [] = []"
| "join sep [l] = l"
| "join sep (l # ls) = l @ sep @ join sep ls"

definition M2_LINE :: "int \<Rightarrow> int \<Rightarrow> string \<Rightarrow> string \<Rightarrow> int \<Rightarrow> string" where
  "M2_LINE s e label target_text annotator_id =
     ''A '' @ format_d s @ '' '' @ format_d e @ ''|||'' @ label @ ''|||''
       @ target_text @ ''|||REQUIRED|||-NONE-|||'' @ format_d annotator_id"

definition NOOP_M2_LINE :: "int \<Rightarrow> string" where
  "NOOP_M2_LINE annotator_id =
     ''A -1 -1|||noop|||-NONE-|||REQUIRED|||-NONE-|||'' @ format_d annotator_id"

text \<open>
  The character offsets and the text of a span are computed by the tagger's library
  from the document; they are taken as given. \<open>span_text\<close> is \<open>None\<close> where reading
  the text raises \<^verbatim>\<open>IndexError\<close>.
\<close>

record span_api =
  start_char :: "char span \<Rightarrow> int"
  end_char :: "char span \<Rightarrow> int"
  span_text :: "char span \<Rightarrow> string option"

definition text_or_empty :: "span_api \<Rightarrow> char span \<Rightarrow> string" where
  "text_or_empty api sp = (case span_text api sp of None \<Rightarrow> [] | Some t \<Rightarrow> t)"

definition m2_char_span_line :: "span_api \<Rightarrow> nat \<Rightarrow> char EditSpan \<Rightarrow> string" where
  "m2_char_span_line api annotator_id edit_span =
     (let target_text = text_or_empty api (target_span edit_span);
          sc = start_char api (source_span edit_span);
          ec = end_char api (source_span edit_span);
          insert = (start (source_span edit_span) = stop (source_span edit_span));
          target_text' =
            (if insert \<and> sc > ec then replicate (nat (sc - ec)) CHR '' '' @ target_text
             else target_text);
          sc' = (if insert then ec else sc)
      in M2_LINE sc' ec (get_label edit_span) target_text' (int annotator_id))"

definition m2_char_target_lines :: "span_api \<Rightarrow> nat \<times> char TargetSentence \<Rightarrow> string list" where
  "m2_char_target_lines api it =
     (let annotator_id = fst it; target_sentence = snd it
      in (if edit_spans target_sentence = [] then [NOOP_M2_LINE (int annotator_id)] else [])
         @ map (m2_char_span_line api annotator_id) (edit_spans target_sentence))"

definition M2CharFormatter_lines :: "span_api \<Rightarrow> char Annotation \<Rightarrow> string list" where
  "M2CharFormatter_lines api annotation =
     [''S '' @ doc_text (source_doc annotation)]
     @ concat (map (m2_char_target_lines api) (enumerate 0 (target_sentences annotation)))
     @ [[]]"

definition M2CharFormatter_format :: "span_api \<Rightarrow> char Annotation \<Rightarrow> string" where
  "M2CharFormatter_format api annotation = join [CHR 0x0A] (M2CharFormatter_lines api annotation)"

definition m2_tok_span_line :: "span_api \<Rightarrow> nat \<Rightarrow> char EditSpan \<Rightarrow> string" where
  "m2_tok_span_line api annotator_id edit_span =
     (let target_text = text_or_empty api (target_span edit_span)
      in M2_LINE (start (source_span edit_span)) (stop (source_span edit_span))
           (get_label edit_span) target_text (int annotator_id))"

definition m2_tok_target_lines :: "span_api \<Rightarrow> nat \<times> char TargetSentence \<Rightarrow> string list" where
  "m2_tok_target_lines api it =
     (let annotator_id = fst it; target_sentence = snd it
      in (if edit_spans target_sentence = [] then [NOOP_M2_LINE (int annotator_id)] else [])
         @ map (m2_tok_span_line api annotator_id) (edit_spans target_sentence))"

definition M2TokFormatter_lines :: "span_api \<Rightarrow> char Annotation \<Rightarrow> string list" where
  "M2TokFormatter_lines api annotation =
     [''S '' @ join '' '' (map tok_text (doc_tokens (source_doc annotation)))]
     @ concat (map (m2_tok_target_lines api) (enumerate 0 (target_sentences annotation)))
     @ [[]]"

definition M2TokFormatter_format :: "span_api \<Rightarrow> char Annotation \<Rightarrow> string" where
  "M2TokFormatter_format api annotation = join [CHR 0x0A] (M2TokFormatter_lines api annotation)"

section \<open>Notions used to state the properties\<close>

text \<open>
  The span loop of \<^verbatim>\<open>get_edit_spans\<close> written by recursion on the alignment points,
  from the previous source and target position.
\<close>

fun spans_from :: "'c doc \<Rightarrow> 'c doc \<Rightarrow> int \<Rightarrow> int \<Rightarrow> (nat \<times> nat) list \<Rightarrow> 'c EditSpan list" where
  "spans_from S T ps pt [] = []"
| "spans_from S T ps pt (p # al) =
     (if ps + 1 \<noteq> int (fst p) \<or> pt + 1 \<noteq> int (snd p)
      then [new_EditSpan (doc_slice S (ps + 1) (int (fst p))) (doc_slice T (pt + 1) (int (snd p)))]
      else [])
     @ spans_from S T (int (fst p)) (int (snd p)) al"

text \<open>
  The alignment points as the backtrace appends them descend strictly in both
  coordinates below \<open>(row, col)\<close>; reversed they ascend strictly above the previous
  positions.
\<close>

definition descending :: "nat \<Rightarrow> nat \<Rightarrow> (nat \<times> nat) list \<Rightarrow> bool" where
  "descending row col ps =
     (sorted_wrt (\<lambda>p q. fst q < fst p \<and> snd q < snd p) ps
      \<and> (\<forall>p\<in>set ps. fst p < row \<and> snd p < col))"

definition ascending :: "int \<Rightarrow> int \<Rightarrow> (nat \<times> nat) list \<Rightarrow> bool" where
  "ascending ps pt al =
     (sorted_wrt (\<lambda>p q. fst p < fst q \<and> snd p < snd q) al
      \<and> (\<forall>p\<in>set al. ps < int (fst p) \<and> pt < int (snd p)))"

text \<open>
  \<open>span_before a b\<close>: span \<open>a\<close> starts and ends before span \<open>b\<close> starts, on the source
  side and on the target side. \<open>source_indices\<close> and \<open>target_indices\<close> are the token
  positions the spans cover. \<open>span_ok\<close>: a span of the two documents whose ranges lie
  between the given bounds and are not both empty.
\<close>

definition span_before :: "'c EditSpan \<Rightarrow> 'c EditSpan \<Rightarrow> bool" where
  "span_before a b =
     (start (source_span a) < start (source_span b)
      \<and> stop (source_span a) < start (source_span b)
      \<and> start (target_span a) < start (target_span b)
      \<and> stop (target_span a) < start (target_span b))"

definition source_indices :: "'c EditSpan list \<Rightarrow> int set" where
  "source_indices spans = (\<Union>e\<in>set spans. {start (source_span e)..<stop (source_span e)})"

definition target_indices :: "'c EditSpan list \<Rightarrow> int set" where
  "target_indices spans = (\<Union>e\<in>set spans. {start (target_span e)..<stop (target_span e)})"

definition span_ok :: "'c doc \<Rightarrow> 'c doc \<Rightarrow> int \<Rightarrow> int \<Rightarrow> int \<Rightarrow> int \<Rightarrow> 'c EditSpan \<Rightarrow> bool" where
  "span_ok S T ls lt hs ht e =
     (span_doc (source_span e) = S \<and> span_doc (target_span e) = T
      \<and> ls \<le> start (source_span e) \<and> start (source_span e) \<le> stop (source_span e)
      \<and> stop (source_span e) \<le> hs
      \<and> lt \<le> start (target_span e) \<and> start (target_span e) \<le> stop (target_span e)
      \<and> stop (target_span e) \<le> ht
      \<and> (start (source_span e) < stop (source_span e)
         \<or> start (target_span e) < stop (target_span e)))"

text \<open>
  \<open>verb_pair_differs\<close>: a pair of verbs that differs in Tense, or in both Number and
  Person. \<open>rule_tags\<close>: the fixed tags that the one-sided, one-to-one and two-sided
  rules return besides part-of-speech names.
\<close>

definition verb_pair_differs :: "'c token \<times> 'c token \<Rightarrow> bool" where
  "verb_pair_differs st =
     (\<not> morph_match (fst st) (snd st) ''Tense''
      \<or> (\<not> morph_match (fst st) (snd st) ''Number''
          \<and> \<not> morph_match (fst st) (snd st) ''Person''))"

definition rule_tags :: "string set" where
  "rule_tags = {''VERB:TENSE'', ''NOUN'', ''NOUN:NUM'', ''VERB'', ''VERB:SVA'', ''OTHER'',
                ''MORPH'', ''SPELL'', ''NOUN:INFL'', ''VERB:INFL''}"

section \<open>Sample inputs\<close>

text \<open>
  The samples are texts over \<open>char\<close>, with a lower-casing function that maps the ASCII
  capital letters to the small ones and leaves every other character as it is.
\<close>

definition ascii_lower_char :: "char \<Rightarrow> char" where
  "ascii_lower_char c =
     (if of_char c \<ge> (65::nat) \<and> of_char c \<le> (90::nat)
      then char_of (of_char c + (32::nat)) else c)"

definition ascii_lower :: "string \<Rightarrow> string" where
  "ascii_lower s = map ascii_lower_char s"

text \<open>
  A lower-casing function on code points given as numbers, for the capital letters of
  ASCII and of Latin-1.
\<close>

definition codepoint_lower :: "nat list \<Rightarrow> nat list" where
  "codepoint_lower s =
     map (\<lambda>c. if (65 \<le> c \<and> c \<le> 90) \<or> (192 \<le> c \<and> c \<le> 222 \<and> c \<noteq> 215) then c + 32 else c) s"

definition sample_token :: "'c list \<Rightarrow> nat \<Rightarrow> pos_tag \<Rightarrow> 'c token" where
  "sample_token s l p =
     \<lparr>tok_text = s, lemma_id = l, pos = p, morph = [], is_punct = False, is_digit = False\<rparr>"

definition sample_source :: "char doc" where
  "sample_source = \<lparr>doc_text = ''I goed home'',
     doc_tokens = [sample_token ''I'' 1 PRON, sample_token ''goed'' 2 VERB,
                   sample_token ''home'' 3 ADV]\<rparr>"

definition sample_target :: "char doc" where
  "sample_target = \<lparr>doc_text = ''I went home'',
     doc_tokens = [sample_token ''I'' 1 PRON, sample_token ''went'' 4 VERB,
                   sample_token ''home'' 3 ADV]\<rparr>"

definition sample_aux :: "char token" where
  "sample_aux = \<lparr>tok_text = ''has'', lemma_id = 5, pos = AUX, morph = [],
                 is_punct = False, is_digit = False\<rparr>"

definition sample_verb :: "string \<Rightarrow> nat \<Rightarrow> (string \<times> string list) list \<Rightarrow> char token" where
  "sample_verb s l m =
     \<lparr>tok_text = s, lemma_id = l, pos = VERB, morph = m, is_punct = False, is_digit = False\<rparr>"

definition sva_then_tense_source :: "char token list" where
  "sva_then_tense_source =
     [sample_verb ''walks'' 6 [(''Number'', [''Sing'']), (''Person'', [''3'']), (''Tense'', [''Pres''])],
      sample_verb ''talked'' 7 [(''Tense'', [''Past''])]]"

definition sva_then_tense_target :: "char token list" where
  "sva_then_tense_target =
     [sample_verb ''walk'' 6 [(''Number'', [''Plur'']), (''Person'', [''1'']), (''Tense'', [''Pres''])],
      sample_verb ''talk'' 7 [(''Tense'', [''Pres''])]]"

definition doc_of_tokens :: "'c token list \<Rightarrow> 'c doc" where
  "doc_of_tokens toks = \<lparr>doc_text = concat (map tok_text toks), doc_tokens = toks\<rparr>"

definition whole_span :: "'c token list \<Rightarrow> 'c span" where
  "whole_span toks = doc_slice (doc_of_tokens toks) 0 (int (length toks))"

definition sample_edit :: "'c token list \<Rightarrow> 'c token list \<Rightarrow> 'c EditSpan" where
  "sample_edit src tgt = new_EditSpan (whole_span src) (whole_span tgt)"

definition sample_punct :: "string \<Rightarrow> char token" where
  "sample_punct s = \<lparr>tok_text = s, lemma_id = 9, pos = PUNCT, morph = [],
                      is_punct = True, is_digit = False\<rparr>"

definition sample_digit :: "string \<Rightarrow> nat \<Rightarrow> char token" where
  "sample_digit s l = \<lparr>tok_text = s, lemma_id = l, pos = NUM, morph = [],
                        is_punct = False, is_digit = True\<rparr>"

definition number_word_source :: "char doc" where
  "number_word_source = doc_of_tokens
     [sample_token ''I'' 1 PRON, sample_token ''have'' 10 VERB, sample_token ''apples'' 11 NOUN]"

definition number_word_target :: "char doc" where
  "number_word_target = doc_of_tokens
     [sample_token ''I'' 1 PRON, sample_token ''have'' 10 VERB, sample_token ''three'' 12 NUM,
      sample_token ''apples'' 11 NOUN]"

definition number_word_span :: "char EditSpan" where
  "number_word_span =
     new_EditSpan (doc_slice number_word_source 2 2) (doc_slice number_word_target 2 3)"

definition sample_suggest :: "string \<Rightarrow> string list" where
  "sample_suggest w = (if w = ''storr'' then [''stork'', ''story''] else [w])"

definition case_edit :: "char EditSpan" where
  "case_edit = sample_edit [sample_token ''Hello'' 16 INTJ] [sample_token ''hello'' 16 INTJ]"

text \<open>
  A word with a capital E acute (code point 201) and the same word with the small e
  acute (code point 233), as code points.
\<close>

definition accent_case_edit :: "nat EditSpan" where
  "accent_case_edit = sample_edit [sample_token [201, 99, 111, 108, 101] 20 NOUN]
                                  [sample_token [233, 99, 111, 108, 101] 20 NOUN]"

definition order_edit :: "char EditSpan" where
  "order_edit = sample_edit [sample_token ''home'' 3 ADV, sample_token ''went'' 4 VERB]
                            [sample_token ''went'' 4 VERB, sample_token ''home'' 3 ADV]"

definition comma_edit :: "char EditSpan" where
  "comma_edit = sample_edit [sample_punct '',''] []"

definition digit_edit :: "char EditSpan" where
  "digit_edit = sample_edit [sample_digit ''3'' 17] [sample_digit ''4'' 18]"

definition verb_edit :: "char EditSpan" where
  "verb_edit = sample_edit [sample_token ''goed'' 2 VERB] [sample_token ''went'' 4 VERB]"

definition sample_load_spacy :: "string \<Rightarrow> string \<Rightarrow> char doc" where
  "sample_load_spacy model sentence = doc_of_tokens [sample_token sentence 0 NOUN]"

definition sample_load_aspell :: "string \<Rightarrow> string \<Rightarrow> string list" where
  "sample_load_aspell lang = sample_suggest"

definition sample_api :: span_api where
  "sample_api = \<lparr>start_char = (\<lambda>sp. 2 * start sp), end_char = (\<lambda>sp. 2 * stop sp),
                  span_text = (\<lambda>sp. if stop sp \<le> start sp then None
                                       else Some (join '' '' (map tok_text (span_tokens sp))))\<rparr>"

definition unchanged_annotation :: "char Annotation" where
  "unchanged_annotation =
     \<lparr>source_doc = sample_source,
      target_sentences = [\<lparr>ts_doc = sample_source, edit_spans = []\<rparr>]\<rparr>"

definition changed_annotation :: "char Annotation" where
  "changed_annotation =
     \<lparr>source_doc = sample_source,
      target_sentences =
        [\<lparr>ts_doc = sample_target,
          edit_spans = [(new_EditSpan (doc_slice sample_source 1 2)
                           (doc_slice sample_target 1 2))\<lparr>tag := ''VERB''\<rparr>]\<rparr>]\<rparr>"

section \<open>The aligner's loops\<close>

declare backtrace.simps [simp del]

lemma foldl_span_step:
  "snd (snd (foldl (span_step S T) (ps, pt, acc) al)) = acc @ spans_from S T ps pt al"
  by (induction al arbitrary: ps pt acc) (simp_all add: span_step_def Let_def)

lemma descending_weaken:
  "descending r c ps \<Longrightarrow> r \<le> r' \<Longrightarrow> c \<le> c' \<Longrightarrow> descending r' c' ps"
  by (fastforce simp: descending_def)

lemma descending_Cons:
  "descending r c ps \<Longrightarrow> r < r' \<Longrightarrow> c < c' \<Longrightarrow> descending r' c' ((r, c) # ps)"
  by (fastforce simp: descending_def)

lemma backtrace_descending:
  "\<exists>new. backtrace m row col align = align @ new \<and> descending row col new"
proof (induction m row col align rule: backtrace.induct)
  case (1 m row col align)
  show ?case
  proof (cases "row * col = 0")
    case True
    then show ?thesis by (subst backtrace.simps) (simp add: descending_def)
  next
    case nz: False
    then have pos: "0 < row" "0 < col" by simp_all
    show ?thesis
    proof (cases "m ! (row - 1) ! col < m ! row ! col")
      case True
      from "1.IH"(1)[OF nz True] obtain new where
        "backtrace m (row - 1) col align = align @ new" "descending (row - 1) col new" by blast
      then show ?thesis using nz True
        by (subst backtrace.simps) (auto intro: descending_weaken)
    next
      case nv: False
      show ?thesis
      proof (cases "m ! row ! (col - 1) < m ! row ! col")
        case True
        from "1.IH"(2)[OF nz nv True] obtain new where
          "backtrace m row (col - 1) align = align @ new" "descending row (col - 1) new" by blast
        then show ?thesis using nz nv True
          by (subst backtrace.simps) (auto intro: descending_weaken)
      next
        case nh: False
        show ?thesis
        proof (cases "m ! (row - 1) ! (col - 1) = m ! row ! col")
          case True
          from "1.IH"(3)[OF nz nv nh True] obtain new where
            n: "backtrace m (row - 1) (col - 1) (align @ [(row - 1, col - 1)])
              = (align @ [(row - 1, col - 1)]) @ new" "descending (row - 1) (col - 1) new" by blast
          have "descending row col ((row - 1, col - 1) # new)"
            using n(2) pos by (intro descending_Cons) simp_all
          then show ?thesis using nz nv nh True n(1)
            by (subst backtrace.simps) auto
        next
          case False
          from "1.IH"(4)[OF nz nv nh False] obtain new where
            "backtrace m (row - 1) (col - 1) align = align @ new"
            "descending (row - 1) (col - 1) new" by blast
          then show ?thesis using nz nv nh False
            by (subst backtrace.simps) (auto intro: descending_weaken)
        qed
      qed
    qed
  qed
qed

lemma ascending_rev:
  "descending row col new \<Longrightarrow> ascending (-1) (-1) (rev new @ [(row, col)])"
  by (auto simp: descending_def ascending_def sorted_wrt_append sorted_wrt_rev)

lemma ascending_Cons:
  "ascending ps pt (p # al) \<Longrightarrow> ascending (int (fst p)) (int (snd p)) al"
  by (auto simp: ascending_def)

lemma ascending_head:
  "ascending ps pt (p # al) \<Longrightarrow> ps < int (fst p) \<and> pt < int (snd p)"
  by (auto simp: ascending_def)

lemma spans_from_ok:
  "ascending ps pt al \<Longrightarrow> \<forall>p\<in>set al. int (fst p) \<le> hs \<and> int (snd p) \<le> ht
   \<Longrightarrow> \<forall>e\<in>set (spans_from S T ps pt al). span_ok S T (ps + 1) (pt + 1) hs ht e"
proof (induction al arbitrary: ps pt)
  case Nil
  then show ?case by simp
next
  case (Cons p al)
  have h: "ps < int (fst p)" "pt < int (snd p)" using ascending_head[OF Cons.prems(1)] by simp_all
  have b: "int (fst p) \<le> hs" "int (snd p) \<le> ht" using Cons.prems(2) by simp_all
  have "\<forall>e\<in>set (spans_from S T (int (fst p)) (int (snd p)) al).
          span_ok S T (int (fst p) + 1) (int (snd p) + 1) hs ht e"
    using Cons.IH[OF ascending_Cons[OF Cons.prems(1)]] Cons.prems(2) by simp
  then have rest: "\<forall>e\<in>set (spans_from S T (int (fst p)) (int (snd p)) al).
          span_ok S T (ps + 1) (pt + 1) hs ht e"
    using h by (auto simp: span_ok_def)
  have first: "ps + 1 \<noteq> int (fst p) \<or> pt + 1 \<noteq> int (snd p) \<Longrightarrow>
     span_ok S T (ps + 1) (pt + 1) hs ht
       (new_EditSpan (doc_slice S (ps + 1) (int (fst p))) (doc_slice T (pt + 1) (int (snd p))))"
    using h b by (auto simp: span_ok_def new_EditSpan_def doc_slice_def)
  show ?case using rest first by auto
qed

lemma spans_from_sorted:
  "ascending ps pt al \<Longrightarrow> sorted_wrt span_before (spans_from S T ps pt al)"
proof (induction al arbitrary: ps pt)
  case Nil
  then show ?case by simp
next
  case (Cons p al)
  let ?s = "int (fst p)" and ?t = "int (snd p)"
  have asc: "ascending ?s ?t al" by (rule ascending_Cons[OF Cons.prems])
  have h: "ps < ?s" "pt < ?t" using ascending_head[OF Cons.prems] by simp_all
  obtain hs ht where bnd: "\<forall>q\<in>set al. int (fst q) \<le> hs \<and> int (snd q) \<le> ht"
  proof
    show "\<forall>q\<in>set al. int (fst q) \<le> int (sum_list (map fst al)) \<and> int (snd q) \<le> int (sum_list (map snd al))"
      by (force intro!: member_le_sum_list)
  qed
  have rest: "\<forall>e\<in>set (spans_from S T ?s ?t al). span_ok S T (?s + 1) (?t + 1) hs ht e"
    by (rule spans_from_ok[OF asc bnd])
  have "\<forall>e\<in>set (spans_from S T ?s ?t al).
     span_before (new_EditSpan (doc_slice S (ps + 1) ?s) (doc_slice T (pt + 1) ?t)) e"
    using rest h by (auto simp: span_ok_def span_before_def new_EditSpan_def doc_slice_def)
  then show ?case using Cons.IH[OF asc] by (simp add: sorted_wrt_append)
qed

lemma spans_from_cover_source:
  "ascending ps pt al \<Longrightarrow> al \<noteq> [] \<Longrightarrow>
   source_indices (spans_from S T ps pt al) \<union> (\<lambda>p. int (fst p)) ` set al
     = {ps + 1..int (fst (last al))}
   \<and> source_indices (spans_from S T ps pt al) \<inter> (\<lambda>p. int (fst p)) ` set al = {}"
proof (induction al arbitrary: ps pt)
  case Nil
  then show ?case by simp
next
  case (Cons p al)
  let ?s = "int (fst p)" and ?t = "int (snd p)"
  have asc: "ascending ?s ?t al" by (rule ascending_Cons[OF Cons.prems(1)])
  have h: "ps < ?s" "pt < ?t" using ascending_head[OF Cons.prems(1)] by simp_all
  have gt: "\<forall>q\<in>set al. ?s < int (fst q)" using asc by (auto simp: ascending_def)
  have first: "source_indices
       (if ps + 1 \<noteq> ?s \<or> pt + 1 \<noteq> ?t
        then [new_EditSpan (doc_slice S (ps + 1) ?s) (doc_slice T (pt + 1) ?t)] else [])
       = {ps + 1..<?s}"
    by (auto simp: source_indices_def new_EditSpan_def doc_slice_def)
  have split: "source_indices (spans_from S T ps pt (p # al))
      = {ps + 1..<?s} \<union> source_indices (spans_from S T ?s ?t al)"
    using first by (simp add: source_indices_def)
  show ?case
  proof (cases "al = []")
    case True
    then show ?thesis using h split by (auto simp: source_indices_def)
  next
    case False
    from Cons.IH[OF asc False] have
      u: "source_indices (spans_from S T ?s ?t al) \<union> (\<lambda>p. int (fst p)) ` set al
           = {?s + 1..int (fst (last al))}"
      and d: "source_indices (spans_from S T ?s ?t al) \<inter> (\<lambda>p. int (fst p)) ` set al = {}"
      by simp_all
    have lastgt: "?s < int (fst (last al))" using gt False by simp
    have sub: "source_indices (spans_from S T ?s ?t al) \<subseteq> {?s + 1..int (fst (last al))}"
      using u by blast
    have sub2: "(\<lambda>p. int (fst p)) ` set al \<subseteq> {?s + 1..int (fst (last al))}"
      using u by blast
    have "source_indices (spans_from S T ps pt (p # al)) \<union> (\<lambda>p. int (fst p)) ` set (p # al)
       = {ps + 1..<?s} \<union> {?s} \<union> {?s + 1..int (fst (last al))}"
      using split u by auto
    also have "\<dots> = {ps + 1..int (fst (last (p # al)))}"
      using h lastgt False by auto
    finally have U: "source_indices (spans_from S T ps pt (p # al))
        \<union> (\<lambda>p. int (fst p)) ` set (p # al) = {ps + 1..int (fst (last (p # al)))}" .
    have D: "source_indices (spans_from S T ps pt (p # al)) \<inter> (\<lambda>p. int (fst p)) ` set (p # al) = {}"
      using split d sub sub2 by auto
    show ?thesis using U D by blast
  qed
qed

lemma spans_from_cover_target:
  "ascending ps pt al \<Longrightarrow> al \<noteq> [] \<Longrightarrow>
   target_indices (spans_from S T ps pt al) \<union> (\<lambda>p. int (snd p)) ` set al
     = {pt + 1..int (snd (last al))}
   \<and> target_indices (spans_from S T ps pt al) \<inter> (\<lambda>p. int (snd p)) ` set al = {}"
proof (induction al arbitrary: ps pt)
  case Nil
  then show ?case by simp
next
  case (Cons p al)
  let ?s = "int (fst p)" and ?t = "int (snd p)"
  have asc: "ascending ?s ?t al" by (rule ascending_Cons[OF Cons.prems(1)])
  have h: "ps < ?s" "pt < ?t" using ascending_head[OF Cons.prems(1)] by simp_all
  have gt: "\<forall>q\<in>set al. ?t < int (snd q)" using asc by (auto simp: ascending_def)
  have first: "target_indices
       (if ps + 1 \<noteq> ?s \<or> pt + 1 \<noteq> ?t
        then [new_EditSpan (doc_slice S (ps + 1) ?s) (doc_slice T (pt + 1) ?t)] else [])
       = {pt + 1..<?t}"
    by (auto simp: target_indices_def new_EditSpan_def doc_slice_def)
  have split: "target_indices (spans_from S T ps pt (p # al))
      = {pt + 1..<?t} \<union> target_indices (spans_from S T ?s ?t al)"
    using first by (simp add: target_indices_def)
  show ?case
  proof (cases "al = []")
    case True
    then show ?thesis using h split by (auto simp: target_indices_def)
  next
    case False
    from Cons.IH[OF asc False] have
      u: "target_indices (spans_from S T ?s ?t al) \<union> (\<lambda>p. int (snd p)) ` set al
           = {?t + 1..int (snd (last al))}"
      and d: "target_indices (spans_from S T ?s ?t al) \<inter> (\<lambda>p. int (snd p)) ` set al = {}"
      by simp_all
    have lastgt: "?t < int (snd (last al))" using gt False by simp
    have sub: "target_indices (spans_from S T ?s ?t al) \<subseteq> {?t + 1..int (snd (last al))}"
      using u by blast
    have sub2: "(\<lambda>p. int (snd p)) ` set al \<subseteq> {?t + 1..int (snd (last al))}"
      using u by blast
    have "target_indices (spans_from S T ps pt (p # al)) \<union> (\<lambda>p. int (snd p)) ` set (p # al)
       = {pt + 1..<?t} \<union> {?t} \<union> {?t + 1..int (snd (last al))}"
      using split u by auto
    also have "\<dots> = {pt + 1..int (snd (last (p # al)))}"
      using h lastgt False by auto
    finally have U: "target_indices (spans_from S T ps pt (p # al))
        \<union> (\<lambda>p. int (snd p)) ` set (p # al) = {pt + 1..int (snd (last (p # al)))}" .
    have D: "target_indices (spans_from S T ps pt (p # al)) \<inter> (\<lambda>p. int (snd p)) ` set (p # al) = {}"
      using split d sub sub2 by auto
    show ?thesis using U D by blast
  qed
qed

lemma alignment_points_descending:
  "descending (length (doc_tokens S)) (length (doc_tokens T)) (rev (alignment_points lower S T))"
  using backtrace_descending[of "levenshtein_matrix (doc_tokens S) (doc_tokens T) (token_sub_cost lower)"
      "length (doc_tokens S)" "length (doc_tokens T)" "[]"]
  by (auto simp: alignment_points_def Let_def)

lemma get_edit_spans_spans_from:
  "get_edit_spans lower S T
     = spans_from S T (-1) (-1)
         (alignment_points lower S T @ [(length (doc_tokens S), length (doc_tokens T))])"
  by (simp add: get_edit_spans_def Let_def foldl_span_step)

lemma cut_top:
  fixes A B :: "int set"
  assumes "A \<union> (B \<union> {m}) = {0..m}" "A \<inter> (B \<union> {m}) = {}" "m \<notin> B"
  shows "A \<union> B = {0..<m}"
proof -
  have "A \<union> B = {0..m} - {m}" using assms by blast
  also have "\<dots> = {0..<m}" by auto
  finally show ?thesis .
qed

section \<open>The cost matrix\<close>

lemma enumerate_snoc: "enumerate k (xs @ [x]) = enumerate k xs @ [(k + length xs, x)]"
  by (simp add: enumerate_append_eq)

lemma lev_row_fold_length:
  "length (foldl (lev_cell f c1 prev) acc (enumerate k ys)) = length acc + length ys"
  by (induction ys arbitrary: acc k) (simp_all add: lev_cell_def Let_def)

lemma lev_row_fold_prefix:
  "i < length acc \<Longrightarrow> foldl (lev_cell f c1 prev) acc (enumerate k ys) ! i = acc ! i"
  by (induction ys arbitrary: acc k) (simp_all add: lev_cell_def Let_def nth_append)

lemma lev_row_fold_cell:
  "length acc = k + 1 \<Longrightarrow> j < length ys \<Longrightarrow>
   foldl (lev_cell f c1 prev) acc (enumerate k ys) ! (k + j + 1)
     = min (prev ! (k + j + 1) + 1)
         (min (foldl (lev_cell f c1 prev) acc (enumerate k ys) ! (k + j) + 1)
              (prev ! (k + j) + f c1 (ys ! j)))"
proof (induction ys arbitrary: acc k j)
  case Nil
  then show ?case by simp
next
  case (Cons y ys)
  let ?acc' = "lev_cell f c1 prev acc (k, y)"
  have acc': "?acc' = acc @ [min (prev ! (k + 1) + 1) (min (acc ! k + 1) (prev ! k + f c1 y))]"
    by (simp add: lev_cell_def Let_def)
  have len: "length ?acc' = Suc k + 1" using Cons.prems(1) acc' by simp
  have fold: "foldl (lev_cell f c1 prev) acc (enumerate k (y # ys))
      = foldl (lev_cell f c1 prev) ?acc' (enumerate (Suc k) ys)" by simp
  show ?case
  proof (cases j)
    case 0
    have a: "foldl (lev_cell f c1 prev) ?acc' (enumerate (Suc k) ys) ! (k + 1) = ?acc' ! (k + 1)"
      using len by (intro lev_row_fold_prefix) simp
    have b: "foldl (lev_cell f c1 prev) ?acc' (enumerate (Suc k) ys) ! k = ?acc' ! k"
      using len by (intro lev_row_fold_prefix) simp
    have c: "?acc' ! (k + 1) = min (prev ! (k + 1) + 1) (min (acc ! k + 1) (prev ! k + f c1 y))"
      using Cons.prems(1) by (simp add: acc' nth_append)
    have d: "?acc' ! k = acc ! k" using Cons.prems(1) by (simp add: acc' nth_append)
    show ?thesis unfolding fold using 0 a b c d by simp
  next
    case (Suc j')
    then have "j' < length ys" using Cons.prems(2) by simp
    from Cons.IH[OF len this] show ?thesis unfolding fold using Suc by simp
  qed
qed

lemma lev_row_length: "length (lev_row f tgt prev ic) = length tgt + 1"
  by (simp add: lev_row_def lev_row_fold_length)

lemma lev_row_0: "lev_row f tgt prev ic ! 0 = of_nat (fst ic + 1)"
  by (simp add: lev_row_def lev_row_fold_prefix)

lemma lev_row_Suc:
  "j < length tgt \<Longrightarrow>
   lev_row f tgt prev ic ! (j + 1)
     = min (prev ! (j + 1) + 1)
         (min (lev_row f tgt prev ic ! j + 1) (prev ! j + f (snd ic) (tgt ! j)))"
  unfolding lev_row_def using lev_row_fold_cell[of "[of_nat (fst ic + 1)]" 0 j tgt f "snd ic" prev]
  by simp

lemma lev_step_length:
  "length (snd (foldl (lev_step f tgt) (prev, mat) (enumerate k xs))) = length mat + length xs"
  by (induction xs arbitrary: prev mat k) (simp_all add: lev_step_def Let_def)

lemma lev_step_prefix:
  "i < length mat \<Longrightarrow> snd (foldl (lev_step f tgt) (prev, mat) (enumerate k xs)) ! i = mat ! i"
  by (induction xs arbitrary: prev mat k) (simp_all add: lev_step_def Let_def nth_append)

lemma lev_step_row:
  "length mat = k + 1 \<Longrightarrow> prev = mat ! k \<Longrightarrow> i < length xs \<Longrightarrow>
   snd (foldl (lev_step f tgt) (prev, mat) (enumerate k xs)) ! (k + i + 1)
     = lev_row f tgt (snd (foldl (lev_step f tgt) (prev, mat) (enumerate k xs)) ! (k + i))
         (k + i, xs ! i)"
proof (induction xs arbitrary: prev mat k i)
  case Nil
  then show ?case by simp
next
  case (Cons x xs)
  let ?row = "lev_row f tgt prev (k, x)"
  let ?mat' = "mat @ [?row]"
  have fold: "foldl (lev_step f tgt) (prev, mat) (enumerate k (x # xs))
      = foldl (lev_step f tgt) (?row, ?mat') (enumerate (Suc k) xs)"
    by (simp add: lev_step_def Let_def)
  have len: "length ?mat' = Suc k + 1" using Cons.prems(1) by simp
  have last: "?row = ?mat' ! Suc k" using Cons.prems(1) by (simp add: nth_append)
  show ?case
  proof (cases i)
    case 0
    have a: "snd (foldl (lev_step f tgt) (?row, ?mat') (enumerate (Suc k) xs)) ! (k + 1) = ?row"
      using lev_step_prefix[of "k + 1" ?mat'] Cons.prems(1) by (simp add: nth_append)
    have b: "snd (foldl (lev_step f tgt) (?row, ?mat') (enumerate (Suc k) xs)) ! k = prev"
      using lev_step_prefix[of k ?mat'] Cons.prems(1,2) by (simp add: nth_append)
    show ?thesis unfolding fold using 0 a b by simp
  next
    case (Suc i')
    then have "i' < length xs" using Cons.prems(3) by simp
    from Cons.IH[OF len last this] show ?thesis unfolding fold using Suc by simp
  qed
qed

lemma levenshtein_matrix_length:
  "length (levenshtein_matrix src tgt f) = length src + 1"
  by (simp add: levenshtein_matrix_def Let_def lev_step_length)

lemma levenshtein_matrix_0:
  "levenshtein_matrix src tgt f ! 0 = map of_nat [0..<length tgt + 1]"
  by (simp add: levenshtein_matrix_def Let_def lev_step_prefix del: upt_Suc)

lemma levenshtein_matrix_Suc:
  "i < length src \<Longrightarrow>
   levenshtein_matrix src tgt f ! (i + 1)
     = lev_row f tgt (levenshtein_matrix src tgt f ! i) (i, src ! i)"
  unfolding levenshtein_matrix_def Let_def
  using lev_step_row[of "[map of_nat [0..<length tgt + 1]]" 0 "map of_nat [0..<length tgt + 1]" i src f tgt]
  by simp

lemma levenshtein_matrix_row_length:
  "i \<le> length src \<Longrightarrow> length (levenshtein_matrix src tgt f ! i) = length tgt + 1"
  by (cases i) (simp_all add: levenshtein_matrix_0 levenshtein_matrix_Suc[simplified] lev_row_length del: upt_Suc)

lemma lev_0_j: "j \<le> length tgt \<Longrightarrow> levenshtein_matrix src tgt f ! 0 ! j = of_nat j"
  unfolding levenshtein_matrix_0 by (simp del: upt_Suc add: nth_map_upt)

lemma lev_i_0: "i \<le> length src \<Longrightarrow> levenshtein_matrix src tgt f ! i ! 0 = of_nat i"
  by (cases i) (simp_all add: lev_0_j levenshtein_matrix_Suc[simplified] lev_row_0)

lemma lev_rec:
  "i < length src \<Longrightarrow> j < length tgt \<Longrightarrow>
   levenshtein_matrix src tgt f ! (i + 1) ! (j + 1)
     = min (levenshtein_matrix src tgt f ! i ! (j + 1) + 1)
         (min (levenshtein_matrix src tgt f ! (i + 1) ! j + 1)
              (levenshtein_matrix src tgt f ! i ! j + f (src ! i) (tgt ! j)))"
  by (simp add: levenshtein_matrix_Suc[simplified] lev_row_Suc[simplified])

lemma lev_nonneg:
  assumes f: "\<And>a b. 0 \<le> f a b"
  shows "i \<le> length src \<Longrightarrow> j \<le> length tgt \<Longrightarrow> 0 \<le> levenshtein_matrix src tgt f ! i ! j"
proof (induction i arbitrary: j)
  case 0
  then show ?case by (simp add: lev_0_j)
next
  case (Suc i)
  note outer = Suc.IH and i_le = Suc.prems(1)
  show ?case using Suc.prems(2)
  proof (induction j)
    case 0
    then show ?case using i_le lev_i_0[of "Suc i" src tgt f] by simp
  next
    case (Suc j)
    have lt: "i < length src" "j < length tgt" using i_le Suc.prems by simp_all
    have a: "0 \<le> levenshtein_matrix src tgt f ! i ! (j + 1)"
      using outer[of "j + 1"] lt by simp
    have b: "0 \<le> levenshtein_matrix src tgt f ! i ! j"
      using outer[of j] lt by simp
    have c: "0 \<le> levenshtein_matrix src tgt f ! (i + 1) ! j"
      using Suc.IH lt by simp
    from lev_rec[OF lt, of f] show ?case using a b c f[of "src ! i" "tgt ! j"] by simp
  qed
qed

lemma lev_diag_zero:
  assumes f: "\<And>a b. 0 \<le> f a b"
    and len: "length src = length tgt"
    and same: "\<And>i. i < length src \<Longrightarrow> f (src ! i) (tgt ! i) = 0"
  shows "i \<le> length src \<Longrightarrow> levenshtein_matrix src tgt f ! i ! i = 0"
proof (induction i)
  case 0
  then show ?case by (simp add: lev_0_j)
next
  case (Suc i)
  have lt: "i < length src" "i < length tgt" using Suc.prems len by simp_all
  have a: "0 \<le> levenshtein_matrix src tgt f ! i ! (i + 1)"
    using lt by (intro lev_nonneg[OF f]) simp_all
  have b: "0 \<le> levenshtein_matrix src tgt f ! (i + 1) ! i"
    using lt by (intro lev_nonneg[OF f]) simp_all
  have c: "levenshtein_matrix src tgt f ! i ! i = 0" using Suc by simp
  from lev_rec[OF lt, of f] show ?case using a b c same[OF lt(1)] by simp
qed

lemma backtrace_diag:
  assumes nonneg: "\<And>i j. i \<le> n \<Longrightarrow> j \<le> n \<Longrightarrow> (0::rat) \<le> m ! i ! j"
    and diag: "\<And>i. i \<le> n \<Longrightarrow> m ! i ! i = 0"
  shows "k \<le> n \<Longrightarrow> backtrace m k k align = align @ rev (map (\<lambda>i. (i, i)) [0..<k])"
proof (induction k arbitrary: align)
  case 0
  then show ?case by (subst backtrace.simps) simp
next
  case (Suc k)
  have d1: "m ! Suc k ! Suc k = 0" and d0: "m ! k ! k = 0" using diag Suc.prems by simp_all
  have v: "\<not> m ! k ! Suc k < 0" using nonneg[of k "Suc k"] Suc.prems by simp
  have h: "\<not> m ! Suc k ! k < 0" using nonneg[of "Suc k" k] Suc.prems by simp
  have "backtrace m (Suc k) (Suc k) align = backtrace m k k (align @ [(k, k)])"
    by (subst backtrace.simps) (simp add: d1 d0 v h)
  then show ?case using Suc.IH[of "align @ [(k, k)]"] Suc.prems by simp
qed

lemma spans_from_diag:
  "spans_from S T (int k - 1) (int k - 1) (map (\<lambda>i. (i, i)) [k..<n]) = []"
proof (induction "n - k" arbitrary: k)
  case 0
  then show ?case by simp
next
  case (Suc d)
  then have lt: "k < n" by simp
  have "Suc d = n - k" by fact
  then have "d = n - Suc k" by simp
  from Suc.hyps(1)[OF this] show ?case using lt by (simp add: upt_conv_Cons)
qed

lemma token_sub_cost_nonneg: "0 \<le> token_sub_cost lower a b"
  by (simp add: token_sub_cost_def Let_def)

section \<open>Properties of the aligner\<close>

lemma get_edit_spans_same_texts:
  assumes "map tok_text (doc_tokens S) = map tok_text (doc_tokens T)"
  shows "get_edit_spans lower S T = []"
proof -
  let ?xs = "doc_tokens S" and ?ys = "doc_tokens T"
  let ?n = "length ?xs"
  let ?m = "levenshtein_matrix ?xs ?ys (token_sub_cost lower)"
  have len: "length ?xs = length ?ys" using assms by (metis length_map)
  have same: "\<And>i. i < ?n \<Longrightarrow> token_sub_cost lower (?xs ! i) (?ys ! i) = 0"
  proof -
    fix i assume i: "i < ?n"
    have "map tok_text ?xs ! i = map tok_text ?ys ! i" using assms by simp
    then have "tok_text (?xs ! i) = tok_text (?ys ! i)" using i len by simp
    then show "token_sub_cost lower (?xs ! i) (?ys ! i) = 0" by (simp add: token_sub_cost_def)
  qed
  have nn: "\<And>i j. i \<le> ?n \<Longrightarrow> j \<le> ?n \<Longrightarrow> 0 \<le> ?m ! i ! j"
    using lev_nonneg[of "token_sub_cost lower" _ ?xs _ ?ys, OF token_sub_cost_nonneg] len by simp
  have dg: "\<And>i. i \<le> ?n \<Longrightarrow> ?m ! i ! i = 0"
    using lev_diag_zero[of "token_sub_cost lower" ?xs ?ys, OF token_sub_cost_nonneg len same] by simp
  have bt: "backtrace ?m ?n ?n [] = rev (map (\<lambda>i. (i, i)) [0..<?n])"
    using backtrace_diag[of ?n ?m ?n "[]"] nn dg by simp
  have al: "alignment_points lower S T @ [(?n, length ?ys)] = map (\<lambda>i. (i, i)) [0..<?n + 1]"
    using bt len by (simp add: alignment_points_def Let_def)
  have "get_edit_spans lower S T = spans_from S T (-1) (-1) (map (\<lambda>i. (i, i)) [0..<?n + 1])"
    unfolding get_edit_spans_def Let_def al by (simp add: foldl_span_step del: upt_Suc)
  also have "\<dots> = []" using spans_from_diag[of S T 0 "?n + 1"] by simp
  finally show ?thesis .
qed

lemma sample_spans:
  "get_edit_spans ascii_lower sample_source sample_target
     = [new_EditSpan (doc_slice sample_source 1 2) (doc_slice sample_target 1 2)]"
  by code_simp

lemma sample_points: "alignment_points ascii_lower sample_source sample_target = [(0, 0), (2, 2)]"
  by code_simp

text \<open>
  Claim C1. For all documents \<open>S\<close> and \<open>T\<close>, the spans returned by \<open>get_edit_spans S T\<close>
  are spans of \<open>S\<close> and \<open>T\<close> with ranges inside \<open>0..len(S)\<close> and \<open>0..len(T)\<close>, no span
  has both ranges empty, every span starts and ends before the next one starts on both
  sides, and the positions covered by the spans together with the positions of the
  alignment points (the matched tokens) are exactly \<open>0..<len(S)\<close> on the source side
  and \<open>0..<len(T)\<close> on the target side, no position being both covered and matched.
  The proof uses no property of the cost matrix: it holds of the backtrace over any
  matrix.
\<close>

theorem get_edit_spans_invariant:
  "(\<forall>e\<in>set (get_edit_spans lower S T).
      span_ok S T 0 0 (int (length (doc_tokens S))) (int (length (doc_tokens T))) e)
   \<and> sorted_wrt span_before (get_edit_spans lower S T)
   \<and> source_indices (get_edit_spans lower S T) \<union> (\<lambda>p. int (fst p)) ` set (alignment_points lower S T)
       = {0..<int (length (doc_tokens S))}
   \<and> source_indices (get_edit_spans lower S T) \<inter> (\<lambda>p. int (fst p)) ` set (alignment_points lower S T) = {}
   \<and> target_indices (get_edit_spans lower S T) \<union> (\<lambda>p. int (snd p)) ` set (alignment_points lower S T)
       = {0..<int (length (doc_tokens T))}
   \<and> target_indices (get_edit_spans lower S T) \<inter> (\<lambda>p. int (snd p)) ` set (alignment_points lower S T) = {}"
proof -
  let ?m = "length (doc_tokens S)" and ?n = "length (doc_tokens T)"
  let ?pts = "alignment_points lower S T"
  let ?al = "?pts @ [(?m, ?n)]"
  let ?sp = "get_edit_spans lower S T"
  have desc: "descending ?m ?n (rev ?pts)" by (rule alignment_points_descending)
  have asc: "ascending (-1) (-1) ?al" using ascending_rev[OF desc] by simp
  have sp: "?sp = spans_from S T (-1) (-1) ?al" by (rule get_edit_spans_spans_from)
  have bnd: "\<forall>p\<in>set ?al. int (fst p) \<le> int ?m \<and> int (snd p) \<le> int ?n"
    using desc by (auto simp: descending_def less_imp_le)
  have ok: "\<forall>e\<in>set ?sp. span_ok S T 0 0 (int ?m) (int ?n) e"
    using spans_from_ok[OF asc bnd, of S T] sp by simp
  have srt: "sorted_wrt span_before ?sp" using spans_from_sorted[OF asc, of S T] sp by simp
  have ms: "int ?m \<notin> (\<lambda>p. int (fst p)) ` set ?pts" using desc by (auto simp: descending_def)
  have nt: "int ?n \<notin> (\<lambda>p. int (snd p)) ` set ?pts" using desc by (auto simp: descending_def)
  from spans_from_cover_source[OF asc, of S T] sp have
    su: "source_indices ?sp \<union> ((\<lambda>p. int (fst p)) ` set ?pts \<union> {int ?m}) = {0..int ?m}"
    and sd: "source_indices ?sp \<inter> ((\<lambda>p. int (fst p)) ` set ?pts \<union> {int ?m}) = {}"
    by simp_all
  from spans_from_cover_target[OF asc, of S T] sp have
    tu: "target_indices ?sp \<union> ((\<lambda>p. int (snd p)) ` set ?pts \<union> {int ?n}) = {0..int ?n}"
    and td: "target_indices ?sp \<inter> ((\<lambda>p. int (snd p)) ` set ?pts \<union> {int ?n}) = {}"
    by simp_all
  have s1: "source_indices ?sp \<union> (\<lambda>p. int (fst p)) ` set ?pts = {0..<int ?m}"
    by (rule cut_top[OF su sd ms])
  have s2: "source_indices ?sp \<inter> (\<lambda>p. int (fst p)) ` set ?pts = {}" using sd by blast
  have t1: "target_indices ?sp \<union> (\<lambda>p. int (snd p)) ` set ?pts = {0..<int ?n}"
    by (rule cut_top[OF tu td nt])
  have t2: "target_indices ?sp \<inter> (\<lambda>p. int (snd p)) ` set ?pts = {}" using td by blast
  show ?thesis using ok srt s1 s2 t1 t2 by blast
qed

theorem get_edit_spans_invariant_witness:
  "get_edit_spans ascii_lower sample_source sample_target \<noteq> []
   \<and> list_all (span_ok sample_source sample_target 0 0 3 3)
        (get_edit_spans ascii_lower sample_source sample_target)
   \<and> sorted_wrt span_before (get_edit_spans ascii_lower sample_source sample_target)
   \<and> source_indices (get_edit_spans ascii_lower sample_source sample_target) \<union> {0, 2} = {0..<3}
   \<and> target_indices (get_edit_spans ascii_lower sample_source sample_target) \<union> {0, 2} = {0..<3}"
proof -
  have ne: "get_edit_spans ascii_lower sample_source sample_target \<noteq> []" by (simp add: sample_spans)
  have len: "length (doc_tokens sample_source) = 3" "length (doc_tokens sample_target) = 3"
    by (simp_all add: sample_source_def sample_target_def)
  show ?thesis
    using get_edit_spans_invariant[of ascii_lower sample_source sample_target] ne
    by (simp add: len sample_points list_all_iff)
qed

text \<open>
  Claim C7. Aligning a document with itself returns no span: every token text equals
  the text at the same position, so the diagonal of the cost matrix is zero and the
  backtrace confirms every token as an alignment point.
\<close>

theorem get_edit_spans_self: "get_edit_spans lower S S = []"
  by (rule get_edit_spans_same_texts) simp

theorem get_edit_spans_self_witness: "get_edit_spans ascii_lower sample_source sample_source = []"
  by (rule get_edit_spans_self)

text \<open>
  Claim C2. The substitution cost is \<open>0\<close> for identical texts, \<open>1/10\<close> for texts that
  differ but are identical after lower-casing, and otherwise \<open>2/10\<close> plus \<open>3/10\<close> if the
  lemmas differ plus \<open>5/10\<close> if the part-of-speech tags differ, a value between \<open>2/10\<close>
  and \<open>1\<close>. This holds for every pair of tokens over any type of code points and for
  every lower-casing function.
\<close>

theorem token_sub_cost_cases:
  "(tok_text a = tok_text b \<longrightarrow> token_sub_cost lower a b = 0)
   \<and> (tok_text a \<noteq> tok_text b \<and> lower (tok_text a) = lower (tok_text b)
        \<longrightarrow> token_sub_cost lower a b = 1 / 10)
   \<and> (lower (tok_text a) \<noteq> lower (tok_text b)
        \<longrightarrow> token_sub_cost lower a b
              = 2 / 10 + (if lemma_id a \<noteq> lemma_id b then 3 / 10 else 0)
                  + (if pos a \<noteq> pos b then 5 / 10 else 0)
            \<and> 2 / 10 \<le> token_sub_cost lower a b \<and> token_sub_cost lower a b \<le> 1)"
  by (auto simp: token_sub_cost_def Let_def)

theorem token_sub_cost_cases_witness:
  "token_sub_cost ascii_lower (sample_token ''went'' 4 VERB) (sample_token ''went'' 4 VERB) = 0
   \<and> token_sub_cost ascii_lower (sample_token ''Went'' 4 VERB) (sample_token ''went'' 4 VERB)
       = 1 / 10
   \<and> token_sub_cost ascii_lower (sample_token ''goed'' 2 VERB) (sample_token ''went'' 4 VERB)
       = 5 / 10
   \<and> token_sub_cost ascii_lower (sample_token ''go'' 2 VERB) (sample_token ''home'' 3 ADV) = 1
   \<and> token_sub_cost codepoint_lower (sample_token [201, 116, 233] 19 NOUN)
         (sample_token [233, 116, 233] 19 NOUN) = 1 / 10"
proof -
  have l1: "ascii_lower ''Went'' = ascii_lower ''went''" by code_simp
  have l2: "ascii_lower ''goed'' \<noteq> ascii_lower ''went''" by code_simp
  have l3: "ascii_lower ''go'' \<noteq> ascii_lower ''home''" by code_simp
  have l4: "codepoint_lower [201, 116, 233] = codepoint_lower [233, 116, 233]"
    by (simp add: codepoint_lower_def)
  have 1: "token_sub_cost ascii_lower (sample_token ''went'' 4 VERB)
             (sample_token ''went'' 4 VERB) = 0"
    using token_sub_cost_cases[where lower = ascii_lower and a = "sample_token ''went'' 4 VERB"
        and b = "sample_token ''went'' 4 VERB"]
    by simp
  have 2: "token_sub_cost ascii_lower (sample_token ''Went'' 4 VERB)
             (sample_token ''went'' 4 VERB) = 1 / 10"
    using token_sub_cost_cases[where lower = ascii_lower and a = "sample_token ''Went'' 4 VERB"
        and b = "sample_token ''went'' 4 VERB"] l1
    by (simp add: sample_token_def)
  have 3: "token_sub_cost ascii_lower (sample_token ''goed'' 2 VERB)
             (sample_token ''went'' 4 VERB) = 5 / 10"
    using token_sub_cost_cases[where lower = ascii_lower and a = "sample_token ''goed'' 2 VERB"
        and b = "sample_token ''went'' 4 VERB"] l2
    by (simp add: sample_token_def)
  have 4: "token_sub_cost ascii_lower (sample_token ''go'' 2 VERB)
             (sample_token ''home'' 3 ADV) = 1"
    using token_sub_cost_cases[where lower = ascii_lower and a = "sample_token ''go'' 2 VERB"
        and b = "sample_token ''home'' 3 ADV"] l3
    by (simp add: sample_token_def)
  have 5: "token_sub_cost codepoint_lower (sample_token [201, 116, 233] 19 NOUN)
             (sample_token [233, 116, 233] 19 NOUN) = 1 / 10"
    using token_sub_cost_cases[where lower = codepoint_lower
        and a = "sample_token [201, 116, 233] 19 NOUN"
        and b = "sample_token [233, 116, 233] 19 NOUN"] l4
    by (simp add: sample_token_def)
  show ?thesis using 1 2 3 4 5 by (intro conjI)
qed

section \<open>Properties of the classifier\<close>

lemma pos_name_inj: "pos_name p = pos_name q \<Longrightarrow> p = q"
  by (cases p; cases q; simp)

lemma pos_str_eq_iff: "pos_str a = pos_str b \<longleftrightarrow> pos a = pos b"
  using pos_name_inj by (auto simp: pos_str_def)

lemma pos_str_is:
  "pos_str tok = ''AUX'' \<longleftrightarrow> pos tok = AUX"
  "pos_str tok = ''VERB'' \<longleftrightarrow> pos tok = VERB"
  "pos_str tok = ''NOUN'' \<longleftrightarrow> pos tok = NOUN"
  "pos_str tok = ''PART'' \<longleftrightarrow> pos tok = PART"
  "pos_str tok = ''DET'' \<longleftrightarrow> pos tok = DET"
  "pos_str tok = ''PUNCT'' \<longleftrightarrow> pos tok = PUNCT"
  "pos_str tok = ''NUM'' \<longleftrightarrow> pos tok = NUM"
  using pos_name_inj[of "pos tok" AUX] pos_name_inj[of "pos tok" VERB]
    pos_name_inj[of "pos tok" NOUN] pos_name_inj[of "pos tok" PART]
    pos_name_inj[of "pos tok" DET] pos_name_inj[of "pos tok" PUNCT]
    pos_name_inj[of "pos tok" NUM]
  by (auto simp: pos_str_def)

lemma pos_name_not_error_tag:
  "pos_name p \<noteq> ''ORTH''" "pos_name p \<noteq> ''WO''" "pos_name p \<noteq> ''SPELL''"
  "pos_name p \<noteq> ''OTHER''" "pos_name p \<noteq> ''MORPH''"
  by (cases p; simp)+

lemma is_aux_span_iff: "is_aux_span toks \<longleftrightarrow> (\<forall>tok\<in>set toks. pos tok = AUX)"
  by (simp add: is_aux_span_def pos_is_subset_def list_all_iff pos_str_is)

lemma is_verbal_span_iff:
  "is_verbal_span toks \<longleftrightarrow>
     (\<forall>tok\<in>set toks. pos tok \<in> {AUX, PART, VERB}) \<and> (\<exists>tok\<in>set toks. pos tok = VERB)"
  by (simp add: is_verbal_span_def pos_is_subset_def list_all_iff list_ex_iff pos_str_is)

lemma is_noun_span_iff:
  "is_noun_span toks \<longleftrightarrow>
     (\<forall>tok\<in>set toks. pos tok \<in> {DET, NOUN}) \<and> (\<exists>tok\<in>set toks. pos tok = NOUN)"
  by (simp add: is_noun_span_def pos_is_subset_def list_all_iff list_ex_iff pos_str_is)

lemma verbal_not_aux: "is_verbal_span toks \<Longrightarrow> \<not> is_aux_span toks"
  by (force simp: is_verbal_span_iff is_aux_span_iff)

lemma verbal_not_noun: "is_verbal_span toks \<Longrightarrow> \<not> is_noun_span toks"
  by (force simp: is_verbal_span_iff is_noun_span_iff)

lemma remdups_same_pos:
  "toks \<noteq> [] \<Longrightarrow> \<forall>tok\<in>set toks. pos tok = p \<Longrightarrow> remdups (map pos_str toks) = [pos_name p]"
proof (induction toks)
  case Nil
  then show ?case by simp
next
  case (Cons a toks)
  show ?case
  proof (cases "toks = []")
    case True
    then show ?thesis using Cons.prems by (simp add: pos_str_def)
  next
    case False
    then obtain b where b: "b \<in> set toks" by (cases toks) auto
    then have "pos_str a = pos_str b" using Cons.prems by (simp add: pos_str_def)
    then have "pos_str a \<in> set (map pos_str toks)" using b by auto
    then show ?thesis using Cons.IH[OF False] Cons.prems by simp
  qed
qed

text \<open>
  Claim C3, as amended. In the two-sided rule, for non-empty token lists that are not both
  entirely AUX, not both verbal and not both nominal, if all target tokens share one
  part-of-speech tag then the returned tag is that tag, with AUX mapped to VERB. Two
  lists consisting entirely of AUX tokens receive the tag VERB:TENSE: the all-AUX check
  comes first in \<^verbatim>\<open>_get_two_sided_tag\<close>.
\<close>

theorem two_sided_pos_rule:
  "(source_tokens \<noteq> [] \<and> target_tokens \<noteq> []
    \<and> \<not> (is_aux_span source_tokens \<and> is_aux_span target_tokens)
    \<and> \<not> (is_verbal_span source_tokens \<and> is_verbal_span target_tokens)
    \<and> \<not> (is_noun_span source_tokens \<and> is_noun_span target_tokens)
    \<and> (\<forall>tok\<in>set target_tokens. pos tok = p)
    \<longrightarrow> get_two_sided_tag source_tokens target_tokens
          = (if p = AUX then ''VERB'' else pos_name p))
   \<and> (is_aux_span source_tokens \<and> is_aux_span target_tokens
      \<longrightarrow> get_two_sided_tag source_tokens target_tokens = ''VERB:TENSE'')"
proof (intro conjI impI)
  assume a: "source_tokens \<noteq> [] \<and> target_tokens \<noteq> []
    \<and> \<not> (is_aux_span source_tokens \<and> is_aux_span target_tokens)
    \<and> \<not> (is_verbal_span source_tokens \<and> is_verbal_span target_tokens)
    \<and> \<not> (is_noun_span source_tokens \<and> is_noun_span target_tokens)
    \<and> (\<forall>tok\<in>set target_tokens. pos tok = p)"
  then have r: "remdups (map pos_str target_tokens) = [pos_name p]"
    by (intro remdups_same_pos) simp_all
  have "pos_name p = ''AUX'' \<longleftrightarrow> p = AUX" using pos_name_inj[of p AUX] by auto
  have n: "(is_aux_span source_tokens \<and> is_aux_span target_tokens) = False"
    "(is_noun_span source_tokens \<and> is_noun_span target_tokens) = False"
    "(is_verbal_span source_tokens \<and> is_verbal_span target_tokens) = False"
    using a by blast+
  have p: "pos_name p = ''AUX'' \<longleftrightarrow> p = AUX" using pos_name_inj[of p AUX] by auto
  have "get_two_sided_tag source_tokens target_tokens
      = (let target_pos_set = remdups (map pos_str target_tokens)
         in if length target_pos_set = 1
            then (let p = hd target_pos_set in if p = ''AUX'' then ''VERB'' else p)
            else ''OTHER'')"
    unfolding get_two_sided_tag_def by (simp only: n if_False)
  then show "get_two_sided_tag source_tokens target_tokens
          = (if p = AUX then ''VERB'' else pos_name p)"
    by (simp add: r p)
next
  assume "is_aux_span source_tokens \<and> is_aux_span target_tokens"
  then show "get_two_sided_tag source_tokens target_tokens = ''VERB:TENSE''"
    by (simp add: get_two_sided_tag_def)
qed

lemma sample_aux_facts:
  "is_aux_span [sample_aux]" "\<not> is_verbal_span [sample_aux]" "\<not> is_noun_span [sample_aux]"
  by (simp_all add: is_aux_span_iff is_verbal_span_iff is_noun_span_iff sample_aux_def)

theorem two_sided_pos_rule_witness:
  "get_two_sided_tag [sample_token ''home'' 3 ADV] [sample_token ''house'' 8 NOUN] = ''NOUN''
   \<and> get_two_sided_tag [sample_token ''home'' 3 ADV] [sample_aux] = ''VERB''
   \<and> get_two_sided_tag [sample_aux] [sample_aux] = ''VERB:TENSE''"
proof -
  have 1: "get_two_sided_tag [sample_token ''home'' 3 ADV] [sample_token ''house'' 8 NOUN] = ''NOUN''"
    using two_sided_pos_rule[of "[sample_token ''home'' 3 ADV]" "[sample_token ''house'' 8 NOUN]" NOUN]
    by (simp add: is_aux_span_iff is_verbal_span_iff is_noun_span_iff sample_token_def)
  have 2: "get_two_sided_tag [sample_token ''home'' 3 ADV] [sample_aux] = ''VERB''"
    using two_sided_pos_rule[of "[sample_token ''home'' 3 ADV]" "[sample_aux]" AUX]
    by (simp add: is_aux_span_iff is_verbal_span_iff is_noun_span_iff sample_token_def sample_aux_def)
  have 3: "get_two_sided_tag [sample_aux] [sample_aux] = ''VERB:TENSE''"
    using two_sided_pos_rule[of "[sample_aux]" "[sample_aux]" AUX] sample_aux_facts by simp
  show ?thesis using 1 2 3 by simp
qed

theorem two_sided_all_aux_counterexample:
  "[sample_aux] \<noteq> []
   \<and> \<not> is_verbal_span [sample_aux] \<and> \<not> is_noun_span [sample_aux]
   \<and> list_all (\<lambda>tok. pos tok = AUX) [sample_aux]
   \<and> get_two_sided_tag [sample_aux] [sample_aux] = ''VERB:TENSE''
   \<and> get_two_sided_tag [sample_aux] [sample_aux] \<noteq> ''VERB''"
proof -
  have "get_two_sided_tag [sample_aux] [sample_aux] = ''VERB:TENSE''"
    using sample_aux_facts by (simp add: get_two_sided_tag_def)
  then show ?thesis using sample_aux_facts by (simp add: sample_aux_def)
qed

lemma verb_pairs_tag_find:
  "verb_pairs_tag pairs =
     (case find verb_pair_differs pairs of
        None \<Rightarrow> ''VERB''
      | Some st \<Rightarrow> if \<not> morph_match (fst st) (snd st) ''Tense'' then ''VERB:TENSE''
                    else ''VERB:SVA'')"
  by (induction pairs rule: verb_pairs_tag.induct) (auto simp: verb_pair_differs_def)

text \<open>
  Claim C4, as amended. In the two-sided rule, when both spans are verbal, the paired
  same-lemma VERB tokens are examined in positional order and the first pair that
  differs in Tense, or in both Number and Person, decides the tag: VERB:TENSE if that
  pair differs in Tense, VERB:SVA otherwise; VERB is returned when no pair differs in
  either way. A Tense mismatch has priority over a Number-and-Person mismatch within
  one pair only.
\<close>

theorem two_sided_verbal_first_pair:
  "is_verbal_span source_tokens \<and> is_verbal_span target_tokens \<longrightarrow>
   get_two_sided_tag source_tokens target_tokens =
     (case find verb_pair_differs (match_up_pos_tokens source_tokens target_tokens ''VERB'') of
        None \<Rightarrow> ''VERB''
      | Some st \<Rightarrow> if \<not> morph_match (fst st) (snd st) ''Tense'' then ''VERB:TENSE''
                    else ''VERB:SVA'')"
  using verbal_not_aux verbal_not_noun
  by (auto simp: get_two_sided_tag_def verb_pairs_tag_find)

lemma sva_then_tense_verbal:
  "is_verbal_span sva_then_tense_source" "is_verbal_span sva_then_tense_target"
  by (simp_all add: is_verbal_span_iff sva_then_tense_source_def sva_then_tense_target_def
      sample_verb_def)

lemma sva_then_tense_pairs:
  "match_up_pos_tokens sva_then_tense_source sva_then_tense_target ''VERB''
     = zip sva_then_tense_source sva_then_tense_target"
  by code_simp

lemma sva_then_tense_tag:
  "get_two_sided_tag sva_then_tense_source sva_then_tense_target = ''VERB:SVA''"
  by code_simp

theorem two_sided_verbal_first_pair_witness:
  "is_verbal_span sva_then_tense_source \<and> is_verbal_span sva_then_tense_target
   \<and> get_two_sided_tag sva_then_tense_source sva_then_tense_target = ''VERB:SVA''"
proof -
  have f: "find verb_pair_differs (zip sva_then_tense_source sva_then_tense_target)
      = Some (hd sva_then_tense_source, hd sva_then_tense_target)" by code_simp
  have m: "morph_match (hd sva_then_tense_source) (hd sva_then_tense_target) ''Tense''"
    by code_simp
  show ?thesis
    using two_sided_verbal_first_pair[of sva_then_tense_source sva_then_tense_target]
      sva_then_tense_verbal
    by (simp add: sva_then_tense_pairs f m)
qed

theorem two_sided_tense_priority_counterexample:
  "is_verbal_span sva_then_tense_source \<and> is_verbal_span sva_then_tense_target
   \<and> (sva_then_tense_source ! 1, sva_then_tense_target ! 1)
       \<in> set (match_up_pos_tokens sva_then_tense_source sva_then_tense_target ''VERB'')
   \<and> \<not> morph_match (sva_then_tense_source ! 1) (sva_then_tense_target ! 1) ''Tense''
   \<and> get_two_sided_tag sva_then_tense_source sva_then_tense_target = ''VERB:SVA''
   \<and> get_two_sided_tag sva_then_tense_source sva_then_tense_target \<noteq> ''VERB:TENSE''"
proof -
  have 1: "(sva_then_tense_source ! 1, sva_then_tense_target ! 1)
       \<in> set (match_up_pos_tokens sva_then_tense_source sva_then_tense_target ''VERB'')"
    unfolding sva_then_tense_pairs
    by (simp add: sva_then_tense_source_def sva_then_tense_target_def)
  have 2: "\<not> morph_match (sva_then_tense_source ! 1) (sva_then_tense_target ! 1) ''Tense''"
    by code_simp
  show ?thesis using 1 2 sva_then_tense_verbal sva_then_tense_tag by simp
qed

lemma noun_pairs_tag_cases: "noun_pairs_tag ps \<in> {''NOUN'', ''NOUN:NUM''}"
  by (induction ps rule: noun_pairs_tag.induct) auto

lemma verb_pairs_tag_cases: "verb_pairs_tag ps \<in> {''VERB'', ''VERB:TENSE'', ''VERB:SVA''}"
  by (induction ps rule: verb_pairs_tag.induct) auto

lemma remdups_single_hd:
  assumes "length (remdups xs) = 1"
  shows "hd (remdups xs) \<in> set xs"
proof -
  obtain x where x: "remdups xs = [x]" using assms by (cases "remdups xs") auto
  have "x \<in> set [x]" by simp
  then have "x \<in> set (remdups xs)" by (simp only: x)
  then have "x \<in> set xs" by simp
  then show ?thesis by (simp add: x)
qed

lemma two_sided_tags:
  "get_two_sided_tag s t \<in> rule_tags \<union> pos_str ` set t"
proof -
  have n: "noun_pairs_tag (match_up_pos_tokens s t ''NOUN'') \<in> rule_tags"
    using noun_pairs_tag_cases[of "match_up_pos_tokens s t ''NOUN''"] by (auto simp: rule_tags_def)
  have v: "verb_pairs_tag (match_up_pos_tokens s t ''VERB'') \<in> rule_tags"
    using verb_pairs_tag_cases[of "match_up_pos_tokens s t ''VERB''"] by (auto simp: rule_tags_def)
  have c: "''VERB:TENSE'' \<in> rule_tags" "''VERB'' \<in> rule_tags" "''OTHER'' \<in> rule_tags"
    by (simp_all add: rule_tags_def)
  have h: "length (remdups (map pos_str t)) = 1 \<Longrightarrow> hd (remdups (map pos_str t)) \<in> pos_str ` set t"
    using remdups_single_hd[of "map pos_str t"] by simp
  show ?thesis
    unfolding get_two_sided_tag_def Let_def using n v c h by (simp split: if_splits)
qed

lemma one_sided_tags:
  "get_one_sided_tag toks \<in> rule_tags \<union> pos_str ` set toks"
proof -
  have c: "''VERB:TENSE'' \<in> rule_tags" "''VERB'' \<in> rule_tags" "''OTHER'' \<in> rule_tags"
    by (simp_all add: rule_tags_def)
  have h: "length (remdups (map pos_str toks)) = 1
      \<Longrightarrow> hd (remdups (map pos_str toks)) \<in> pos_str ` set toks"
    using remdups_single_hd[of "map pos_str toks"] by simp
  show ?thesis
    unfolding get_one_sided_tag_def Let_def using c h by (simp split: if_splits)
qed

lemma one2one_tags:
  assumes "get_one2one_tag lower aspell s t = Inr tg"
  shows "tg \<in> rule_tags \<union> {pos_str t}"
proof -
  have ts: "get_two_sided_tag [s] [t] \<in> rule_tags \<union> {pos_str t}"
    using two_sided_tags[of "[s]" "[t]"] by simp
  have c: "''MORPH'' \<in> rule_tags" "''SPELL'' \<in> rule_tags" "''NOUN:INFL'' \<in> rule_tags"
    "''VERB:INFL'' \<in> rule_tags"
    by (simp_all add: rule_tags_def)
  show ?thesis
    using assms ts c unfolding get_one2one_tag_def Let_def
    by (auto split: if_splits)
qed

lemma rule_tags_not_early:
  "tg \<in> rule_tags \<Longrightarrow> tg \<noteq> ''ORTH'' \<and> tg \<noteq> ''WO'' \<and> tg \<noteq> ''PUNCT'' \<and> tg \<noteq> ''NUM''"
  by (auto simp: rule_tags_def)

lemma pos_str_not_early: "pos_str tok \<noteq> ''ORTH''" "pos_str tok \<noteq> ''WO''"
  by (simp_all add: pos_str_def pos_name_not_error_tag)

lemma classify_single_span_run_rule:
  "classify_single_span lower aspell e = run_rule lower aspell (rule_invoked lower e)"
  by (simp add: classify_single_span_def rule_invoked_def Let_def)

lemma hd_in_regular: "length xs = 1 \<Longrightarrow> hd xs \<in> set xs"
  by (cases xs) auto

text \<open>Tags of the rules after NUM.\<close>
lemma later_rule_tags:
  assumes "\<not> is_orth_error lower (span_tokens (source_span e)) (span_tokens (target_span e))"
    "\<not> is_wo_error lower (span_tokens (source_span e)) (span_tokens (target_span e))"
    "\<not> is_punct_error lower (span_tokens (source_span e)) (span_tokens (target_span e))"
    "\<not> is_orth_error lower (get_regular_tokens (span_tokens (source_span e)))
          (get_regular_tokens (span_tokens (target_span e)))"
    "classify_single_span lower aspell e = Inr tg"
  shows "tg \<in> rule_tags \<union> pos_str ` (set (get_regular_tokens (span_tokens (source_span e)))
            \<union> set (get_regular_tokens (span_tokens (target_span e))))"
proof -
  let ?sr = "get_regular_tokens (span_tokens (source_span e))"
  let ?tr = "get_regular_tokens (span_tokens (target_span e))"
  consider (a) "?sr = []" | (b) "?sr \<noteq> []" "?tr = []"
    | (c) "?sr \<noteq> []" "?tr \<noteq> []" "length ?sr = 1 \<and> length ?tr = 1"
    | (d) "?sr \<noteq> []" "?tr \<noteq> []" "\<not> (length ?sr = 1 \<and> length ?tr = 1)" by blast
  then show ?thesis
  proof cases
    case a
    then have "tg = get_one_sided_tag ?tr"
      using assms by (simp add: classify_single_span_def Let_def)
    then show ?thesis using one_sided_tags[of ?tr] by auto
  next
    case b
    then have "tg = get_one_sided_tag ?sr"
      using assms by (simp add: classify_single_span_def Let_def)
    then show ?thesis using one_sided_tags[of ?sr] by auto
  next
    case c
    then have "get_one2one_tag lower aspell (hd ?sr) (hd ?tr) = Inr tg"
      using assms by (simp add: classify_single_span_def Let_def)
    from one2one_tags[OF this] show ?thesis using hd_in_regular[of ?tr] c by auto
  next
    case d
    then have "tg = get_two_sided_tag ?sr ?tr"
      using assms by (auto simp: classify_single_span_def Let_def split: if_splits)
    then show ?thesis using two_sided_tags[of ?sr ?tr] by auto
  qed
qed

lemma span_tokens_whole [simp]: "span_tokens (whole_span toks) = toks"
  by (simp add: span_tokens_def whole_span_def doc_slice_def doc_of_tokens_def)

lemma sample_edit_spans [simp]:
  "source_span (sample_edit src tgt) = whole_span src"
  "target_span (sample_edit src tgt) = whole_span tgt"
  by (simp_all add: sample_edit_def new_EditSpan_def)

lemma two_sided_not_early:
  "get_two_sided_tag s t \<noteq> ''SPELL''" "get_two_sided_tag s t \<noteq> ''ORTH''"
  "get_two_sided_tag s t \<noteq> ''WO''"
proof -
  have n: "noun_pairs_tag (match_up_pos_tokens s t ''NOUN'') \<notin> {''SPELL'', ''ORTH'', ''WO''}"
    using noun_pairs_tag_cases[of "match_up_pos_tokens s t ''NOUN''"] by auto
  have v: "verb_pairs_tag (match_up_pos_tokens s t ''VERB'') \<notin> {''SPELL'', ''ORTH'', ''WO''}"
    using verb_pairs_tag_cases[of "match_up_pos_tokens s t ''VERB''"] by auto
  have h: "length (remdups (map pos_str t)) = 1
      \<Longrightarrow> hd (remdups (map pos_str t)) \<notin> {''SPELL'', ''ORTH'', ''WO''}"
    using remdups_single_hd[of "map pos_str t"]
    by (auto simp: pos_str_def pos_name_not_error_tag pos_name_not_error_tag[symmetric])
  show "get_two_sided_tag s t \<noteq> ''SPELL''" "get_two_sided_tag s t \<noteq> ''ORTH''"
    "get_two_sided_tag s t \<noteq> ''WO''"
    unfolding get_two_sided_tag_def Let_def using n v h by (simp_all split: if_splits)
qed

lemma levenshtein_distance_cell:
  "levenshtein_distance src tgt f = levenshtein_matrix src tgt f ! length src ! length tgt"
proof -
  let ?m = "levenshtein_matrix src tgt f"
  have len: "length ?m = length src + 1" by (rule levenshtein_matrix_length)
  then have ne: "?m \<noteq> []" by auto
  have l: "last ?m = ?m ! length src" using len ne by (simp add: last_conv_nth)
  have rl: "length (?m ! length src) = length tgt + 1"
    by (rule levenshtein_matrix_row_length) simp
  then have rne: "?m ! length src \<noteq> []" by auto
  have "last (?m ! length src) = ?m ! length src ! length tgt"
    using rl rne by (simp add: last_conv_nth)
  then show ?thesis by (simp add: levenshtein_distance_def l)
qed

text \<open>
  Claim C6. In the one-to-one rule, when the speller returns suggestions whose first
  entry differs case-insensitively from the source text, the lemmas differ and no
  suggestion equals the target text case-insensitively, the tag SPELL is returned
  exactly when \<open>2 * d / (len(source_text) + len(target_text)) < 3/10\<close>. Here \<open>d\<close> is what
  \<open>levenshtein_distance\<close> returns for the two texts and the 0/1 substitution cost: the
  last cell of the matrix \<open>D\<close> of the matrix routine, which has \<open>D[0][j] = j\<close>,
  \<open>D[i][0] = i\<close> and \<open>D[i+1][j+1]\<close> the least of \<open>D[i][j+1] + 1\<close>, \<open>D[i+1][j] + 1\<close> and
  \<open>D[i][j]\<close> plus 1 if the characters at \<open>i\<close> and \<open>j\<close> differ. Lengths and positions count
  code points. The quotient exists when the texts are not both empty; for two empty
  texts the rule raises.
\<close>

theorem one2one_spell_by_distance:
  fixes lower :: "'c list \<Rightarrow> 'c list" and s t :: "'c token"
  defines "D \<equiv> levenshtein_matrix (tok_text s) (tok_text t) binary_cost"
  assumes "aspell = Some suggest"
    and "suggest (tok_text s) \<noteq> []"
    and "lower (hd (suggest (tok_text s))) \<noteq> lower (tok_text s)"
    and "lemma_id s \<noteq> lemma_id t"
    and "\<forall>sg\<in>set (suggest (tok_text s)). lower sg \<noteq> lower (tok_text t)"
  shows "(get_one2one_tag lower aspell s t = Inr ''SPELL'' \<longleftrightarrow>
           0 < length (tok_text s) + length (tok_text t)
           \<and> 2 * levenshtein_distance (tok_text s) (tok_text t) binary_cost
               / of_nat (length (tok_text s) + length (tok_text t)) < 3 / 10)
         \<and> levenshtein_distance (tok_text s) (tok_text t) binary_cost
             = D ! length (tok_text s) ! length (tok_text t)
         \<and> (\<forall>j\<le>length (tok_text t). D ! 0 ! j = of_nat j)
         \<and> (\<forall>i\<le>length (tok_text s). D ! i ! 0 = of_nat i)
         \<and> (\<forall>i<length (tok_text s). \<forall>j<length (tok_text t).
               D ! (i + 1) ! (j + 1)
                 = min (D ! i ! (j + 1) + 1)
                     (min (D ! (i + 1) ! j + 1)
                          (D ! i ! j + (if tok_text s ! i \<noteq> tok_text t ! j then 1 else 0))))"
proof -
  have ex: "\<not> list_ex (\<lambda>sg. lower sg = lower (tok_text t)) (suggest (tok_text s))"
    using assms(6) by (simp add: list_ex_iff)
  have tag: "get_one2one_tag lower aspell s t = Inr ''SPELL'' \<longleftrightarrow>
           0 < length (tok_text s) + length (tok_text t)
           \<and> 2 * levenshtein_distance (tok_text s) (tok_text t) binary_cost
               / of_nat (length (tok_text s) + length (tok_text t)) < 3 / 10"
    unfolding get_one2one_tag_def Let_def
    using assms(2-5) ex two_sided_not_early(1)[of "[s]" "[t]"]
    by simp
  have cell: "levenshtein_distance (tok_text s) (tok_text t) binary_cost
             = D ! length (tok_text s) ! length (tok_text t)"
    unfolding D_def by (rule levenshtein_distance_cell)
  have row0: "\<forall>j\<le>length (tok_text t). D ! 0 ! j = of_nat j"
    unfolding D_def by (simp add: lev_0_j)
  have col0: "\<forall>i\<le>length (tok_text s). D ! i ! 0 = of_nat i"
    unfolding D_def by (simp add: lev_i_0)
  have rec: "\<forall>i<length (tok_text s). \<forall>j<length (tok_text t).
               D ! (i + 1) ! (j + 1)
                 = min (D ! i ! (j + 1) + 1)
                     (min (D ! (i + 1) ! j + 1)
                          (D ! i ! j + (if tok_text s ! i \<noteq> tok_text t ! j then 1 else 0)))"
    unfolding D_def using lev_rec[of _ "tok_text s" _ "tok_text t" binary_cost]
    by (simp add: binary_cost_def)
  show ?thesis using tag cell row0 col0 rec by (intro conjI)
qed

lemma lower_differ_nonempty:
  "lower a \<noteq> lower b \<Longrightarrow> 0 < length a + length b"
  by (cases a; cases b; simp)

lemma one2one_not_error:
  assumes "lower (tok_text s) \<noteq> lower (tok_text t)"
  shows "\<not> isl (get_one2one_tag lower aspell s t)"
proof -
  have nz: "(length (tok_text s) + length (tok_text t) = 0) = False"
    using lower_differ_nonempty[where lower = lower and a = "tok_text s" and b = "tok_text t",
        OF assms] by simp
  show ?thesis
    unfolding get_one2one_tag_def Let_def nz by (simp only: if_False) (simp split: if_splits)
qed

lemma one2one_total:
  "lower (tok_text s) \<noteq> lower (tok_text t) \<Longrightarrow> \<exists>tg. get_one2one_tag lower aspell s t = Inr tg"
  using one2one_not_error[where lower = lower and s = s and t = t and aspell = aspell]
  by (cases "get_one2one_tag lower aspell s t") auto

lemma single_orth:
  "length xs = 1 \<Longrightarrow> length ys = 1 \<Longrightarrow> \<not> is_orth_error lower xs ys
   \<Longrightarrow> lower (tok_text (hd xs)) \<noteq> lower (tok_text (hd ys))"
  by (cases xs; cases ys) (auto simp: is_orth_error_def lower_text_def)

lemma classify_single_span_not_error: "\<not> isl (classify_single_span lower aspell e)"
proof -
  let ?sr = "get_regular_tokens (span_tokens (source_span e))"
  let ?tr = "get_regular_tokens (span_tokens (target_span e))"
  have h: "length ?sr = 1 \<and> length ?tr = 1 \<Longrightarrow> \<not> is_orth_error lower ?sr ?tr
     \<Longrightarrow> \<not> isl (get_one2one_tag lower aspell (hd ?sr) (hd ?tr))"
    using single_orth[where lower = lower and xs = ?sr and ys = ?tr]
      one2one_not_error[where lower = lower] by blast
  show ?thesis
  proof (cases "length ?sr = 1 \<and> length ?tr = 1")
    case True
    then show ?thesis using h
      unfolding classify_single_span_def Let_def by (simp split: if_splits)
  next
    case False
    then have f: "(length ?sr = 1 \<and> length ?tr = 1) = False" by simp
    show ?thesis
      unfolding classify_single_span_def Let_def f by (simp split: if_splits)
  qed
qed

lemma classify_single_span_total: "\<exists>tg. classify_single_span lower aspell e = Inr tg"
  using classify_single_span_not_error[where lower = lower and aspell = aspell and e = e]
  by (cases "classify_single_span lower aspell e") auto

theorem one2one_spell_by_distance_witness:
  "get_one2one_tag ascii_lower (Some sample_suggest) (sample_token ''storr'' 13 NOUN)
       (sample_token ''store'' 14 NOUN) = Inr ''SPELL''
   \<and> levenshtein_distance ''storr'' ''store'' binary_cost
       = levenshtein_matrix ''storr'' ''store'' binary_cost ! 5 ! 5
   \<and> levenshtein_matrix ''storr'' ''store'' binary_cost ! 0 ! 5 = 5
   \<and> levenshtein_matrix ''storr'' ''store'' binary_cost ! 5 ! 0 = 5
   \<and> levenshtein_matrix ''storr'' ''store'' binary_cost ! 5 ! 5
       = min (levenshtein_matrix ''storr'' ''store'' binary_cost ! 4 ! 5 + 1)
           (min (levenshtein_matrix ''storr'' ''store'' binary_cost ! 5 ! 4 + 1)
                (levenshtein_matrix ''storr'' ''store'' binary_cost ! 4 ! 4 + 1))
   \<and> 2 * levenshtein_distance ''storr'' ''store'' binary_cost / of_nat (5 + 5) < 3 / 10
   \<and> get_one2one_tag ascii_lower (Some sample_suggest) (sample_token ''storr'' 13 NOUN)
       (sample_token ''shop'' 15 NOUN) \<noteq> Inr ''SPELL''
   \<and> \<not> 2 * levenshtein_distance ''storr'' ''shop'' binary_cost / of_nat (5 + 4) < 3 / 10"
proof -
  let ?s = "sample_token ''storr'' 13 NOUN"
  let ?t1 = "sample_token ''store'' 14 NOUN"
  let ?t2 = "sample_token ''shop'' 15 NOUN"
  let ?D = "levenshtein_matrix ''storr'' ''store'' binary_cost"
  have d1: "levenshtein_distance ''storr'' ''store'' binary_cost = 1" by code_simp
  have d2: "levenshtein_distance ''storr'' ''shop'' binary_cost = 3" by code_simp
  have tx: "tok_text ?s = ''storr''" "tok_text ?t1 = ''store''" "tok_text ?t2 = ''shop''"
    "lemma_id ?s \<noteq> lemma_id ?t1" "lemma_id ?s \<noteq> lemma_id ?t2"
    by (simp_all add: sample_token_def)
  have sg: "sample_suggest ''storr'' = [''stork'', ''story'']" by (simp add: sample_suggest_def)
  have l1: "ascii_lower ''stork'' \<noteq> ascii_lower ''storr''" by code_simp
  have l2: "ascii_lower ''stork'' \<noteq> ascii_lower ''store''" by code_simp
  have l3: "ascii_lower ''story'' \<noteq> ascii_lower ''store''" by code_simp
  have l4: "ascii_lower ''stork'' \<noteq> ascii_lower ''shop''" by code_simp
  have l5: "ascii_lower ''story'' \<noteq> ascii_lower ''shop''" by code_simp
  have h2: "sample_suggest (tok_text ?s) \<noteq> []" by (simp add: tx sg)
  have h3: "ascii_lower (hd (sample_suggest (tok_text ?s))) \<noteq> ascii_lower (tok_text ?s)"
    using l1 by (simp add: tx sg)
  have h5: "\<forall>sg\<in>set (sample_suggest (tok_text ?s)). ascii_lower sg \<noteq> ascii_lower (tok_text ?t1)"
    using l2 l3 by (simp add: tx sg)
  have h5': "\<forall>sg\<in>set (sample_suggest (tok_text ?s)). ascii_lower sg \<noteq> ascii_lower (tok_text ?t2)"
    using l4 l5 by (simp add: tx sg)
  note near = one2one_spell_by_distance[where lower = ascii_lower
      and aspell = "Some sample_suggest" and suggest = sample_suggest and s = ?s and t = ?t1,
      OF refl h2 h3 tx(4) h5, unfolded tx]
  note far = one2one_spell_by_distance[where lower = ascii_lower
      and aspell = "Some sample_suggest" and suggest = sample_suggest and s = ?s and t = ?t2,
      OF refl h2 h3 tx(5) h5', unfolded tx]
  have a: "get_one2one_tag ascii_lower (Some sample_suggest) ?s ?t1 = Inr ''SPELL''"
    using near[THEN conjunct1] by (simp add: d1)
  have len: "length ''storr'' = 5" "length ''store'' = 5" by simp_all
  have c: "levenshtein_distance ''storr'' ''store'' binary_cost = ?D ! 5 ! 5"
    using near[THEN conjunct2, THEN conjunct1] by (simp only: len)
  have r0: "?D ! 0 ! 5 = 5"
    using near[THEN conjunct2, THEN conjunct2, THEN conjunct1, rule_format, of 5] by simp
  have c0: "?D ! 5 ! 0 = 5"
    using near[THEN conjunct2, THEN conjunct2, THEN conjunct2, THEN conjunct1, rule_format, of 5]
    by simp
  have rc: "?D ! 5 ! 5 = min (?D ! 4 ! 5 + 1) (min (?D ! 5 ! 4 + 1) (?D ! 4 ! 4 + 1))"
    using near[THEN conjunct2, THEN conjunct2, THEN conjunct2, THEN conjunct2, rule_format,
        of 4 4] by simp
  have b: "get_one2one_tag ascii_lower (Some sample_suggest) ?s ?t2 \<noteq> Inr ''SPELL''"
    using far[THEN conjunct1] by (simp add: d2)
  show ?thesis using a c r0 c0 rc b by (simp add: d1 d2)
qed

lemma tag_not_pos:
  assumes "p \<notin> pos ` A" "tg \<in> rule_tags \<union> pos_str ` A" "pos_name p \<notin> rule_tags"
  shows "tg \<noteq> pos_name p"
proof
  assume eq: "tg = pos_name p"
  from assms(2) show False
  proof
    assume "tg \<in> rule_tags"
    then show False using eq assms(3) by simp
  next
    assume "tg \<in> pos_str ` A"
    then obtain x where x: "x \<in> A" "tg = pos_str x" by blast
    then have "pos x = p" using eq pos_name_inj[of "pos x" p] by (simp add: pos_str_def)
    then show False using x(1) assms(1) by blast
  qed
qed

text \<open>
  Claim C5, as amended. For every lower-casing function, \<open>classify_single_span\<close> returns
  ORTH exactly when the
  concatenated lower-cased token texts of the two spans are equal; otherwise WO exactly
  when the sets of lower-cased token texts are equal; otherwise PUNCT when the spans
  satisfy the ORTH condition after removing punctuation tokens; otherwise NUM when they
  satisfy it after removing punctuation and digit tokens. PUNCT and NUM are also names
  of part-of-speech tags, which the later rules can return: PUNCT (NUM) is returned
  exactly when its condition holds provided no regular token of either span is tagged
  PUNCT (NUM).
\<close>

theorem classify_single_span_cascade:
  "(classify_single_span lower aspell e = Inr ''ORTH''
      \<longleftrightarrow> is_orth_error lower (span_tokens (source_span e)) (span_tokens (target_span e)))
   \<and> (\<not> is_orth_error lower (span_tokens (source_span e)) (span_tokens (target_span e))
      \<longrightarrow> (classify_single_span lower aspell e = Inr ''WO''
            \<longleftrightarrow> is_wo_error lower (span_tokens (source_span e)) (span_tokens (target_span e))))
   \<and> (\<not> is_orth_error lower (span_tokens (source_span e)) (span_tokens (target_span e))
      \<and> \<not> is_wo_error lower (span_tokens (source_span e)) (span_tokens (target_span e))
      \<and> is_punct_error lower (span_tokens (source_span e)) (span_tokens (target_span e))
      \<longrightarrow> classify_single_span lower aspell e = Inr ''PUNCT'')
   \<and> (\<not> is_orth_error lower (span_tokens (source_span e)) (span_tokens (target_span e))
      \<and> \<not> is_wo_error lower (span_tokens (source_span e)) (span_tokens (target_span e))
      \<and> \<not> is_punct_error lower (span_tokens (source_span e)) (span_tokens (target_span e))
      \<and> is_orth_error lower (get_regular_tokens (span_tokens (source_span e)))
            (get_regular_tokens (span_tokens (target_span e)))
      \<longrightarrow> classify_single_span lower aspell e = Inr ''NUM'')
   \<and> (\<not> is_orth_error lower (span_tokens (source_span e)) (span_tokens (target_span e))
      \<and> \<not> is_wo_error lower (span_tokens (source_span e)) (span_tokens (target_span e))
      \<and> PUNCT \<notin> pos ` (set (get_regular_tokens (span_tokens (source_span e)))
                        \<union> set (get_regular_tokens (span_tokens (target_span e))))
      \<longrightarrow> (classify_single_span lower aspell e = Inr ''PUNCT''
            \<longleftrightarrow> is_punct_error lower (span_tokens (source_span e)) (span_tokens (target_span e))))
   \<and> (\<not> is_orth_error lower (span_tokens (source_span e)) (span_tokens (target_span e))
      \<and> \<not> is_wo_error lower (span_tokens (source_span e)) (span_tokens (target_span e))
      \<and> \<not> is_punct_error lower (span_tokens (source_span e)) (span_tokens (target_span e))
      \<and> NUM \<notin> pos ` (set (get_regular_tokens (span_tokens (source_span e)))
                      \<union> set (get_regular_tokens (span_tokens (target_span e))))
      \<longrightarrow> (classify_single_span lower aspell e = Inr ''NUM''
            \<longleftrightarrow> is_orth_error lower (get_regular_tokens (span_tokens (source_span e)))
                  (get_regular_tokens (span_tokens (target_span e)))))"
proof -
  let ?src = "span_tokens (source_span e)" and ?tgt = "span_tokens (target_span e)"
  let ?sr = "get_regular_tokens ?src" and ?tr = "get_regular_tokens ?tgt"
  let ?r = "classify_single_span lower aspell e"
  have o: "is_orth_error lower ?src ?tgt \<Longrightarrow> ?r = Inr ''ORTH''"
    by (simp add: classify_single_span_def Let_def)
  have w: "\<not> is_orth_error lower ?src ?tgt \<Longrightarrow> is_wo_error lower ?src ?tgt \<Longrightarrow> ?r = Inr ''WO''"
    by (simp add: classify_single_span_def Let_def)
  have p: "\<not> is_orth_error lower ?src ?tgt \<Longrightarrow> \<not> is_wo_error lower ?src ?tgt \<Longrightarrow> is_punct_error lower ?src ?tgt
      \<Longrightarrow> ?r = Inr ''PUNCT''"
    by (simp add: classify_single_span_def Let_def)
  have n: "\<not> is_orth_error lower ?src ?tgt \<Longrightarrow> \<not> is_wo_error lower ?src ?tgt \<Longrightarrow> \<not> is_punct_error lower ?src ?tgt
      \<Longrightarrow> is_orth_error lower ?sr ?tr \<Longrightarrow> ?r = Inr ''NUM''"
    by (simp add: classify_single_span_def Let_def)
  have later: "\<And>tg. \<not> is_orth_error lower ?src ?tgt \<Longrightarrow> \<not> is_wo_error lower ?src ?tgt
      \<Longrightarrow> \<not> is_punct_error lower ?src ?tgt \<Longrightarrow> \<not> is_orth_error lower ?sr ?tr \<Longrightarrow> ?r = Inr tg
      \<Longrightarrow> tg \<in> rule_tags \<union> pos_str ` (set ?sr \<union> set ?tr)"
    by (rule later_rule_tags)
  have no_orth: "\<And>tg. tg \<in> rule_tags \<union> pos_str ` (set ?sr \<union> set ?tr)
      \<Longrightarrow> tg \<noteq> ''ORTH'' \<and> tg \<noteq> ''WO''"
    using rule_tags_not_early pos_str_not_early by auto
  have nr: "''PUNCT'' \<notin> rule_tags" "''NUM'' \<notin> rule_tags" by (simp_all add: rule_tags_def)
  have no_punct: "\<And>tg. PUNCT \<notin> pos ` (set ?sr \<union> set ?tr)
      \<Longrightarrow> tg \<in> rule_tags \<union> pos_str ` (set ?sr \<union> set ?tr) \<Longrightarrow> tg \<noteq> ''PUNCT''"
    using tag_not_pos[of PUNCT "set ?sr \<union> set ?tr"] nr by simp
  have no_num: "\<And>tg. NUM \<notin> pos ` (set ?sr \<union> set ?tr)
      \<Longrightarrow> tg \<in> rule_tags \<union> pos_str ` (set ?sr \<union> set ?tr) \<Longrightarrow> tg \<noteq> ''NUM''"
    using tag_not_pos[of NUM "set ?sr \<union> set ?tr"] nr by simp
  have c1: "?r = Inr ''ORTH'' \<longleftrightarrow> is_orth_error lower ?src ?tgt"
  proof
    assume r: "?r = Inr ''ORTH''"
    show "is_orth_error lower ?src ?tgt"
    proof (rule ccontr)
      assume no: "\<not> is_orth_error lower ?src ?tgt"
      then show False using r w p n later[of "''ORTH''"] no_orth[of "''ORTH''"]
        by (cases "is_wo_error lower ?src ?tgt"; cases "is_punct_error lower ?src ?tgt";
            cases "is_orth_error lower ?sr ?tr") auto
    qed
  qed (rule o)
  have c2: "\<not> is_orth_error lower ?src ?tgt \<Longrightarrow> (?r = Inr ''WO'' \<longleftrightarrow> is_wo_error lower ?src ?tgt)"
  proof
    assume no: "\<not> is_orth_error lower ?src ?tgt" and r: "?r = Inr ''WO''"
    show "is_wo_error lower ?src ?tgt"
    proof (rule ccontr)
      assume nw: "\<not> is_wo_error lower ?src ?tgt"
      then show False using no r p n later[of "''WO''"] no_orth[of "''WO''"]
        by (cases "is_punct_error lower ?src ?tgt"; cases "is_orth_error lower ?sr ?tr") auto
    qed
  qed (rule w)
  have c5: "\<not> is_orth_error lower ?src ?tgt \<Longrightarrow> \<not> is_wo_error lower ?src ?tgt
      \<Longrightarrow> PUNCT \<notin> pos ` (set ?sr \<union> set ?tr)
      \<Longrightarrow> (?r = Inr ''PUNCT'' \<longleftrightarrow> is_punct_error lower ?src ?tgt)"
  proof
    assume no: "\<not> is_orth_error lower ?src ?tgt" and nw: "\<not> is_wo_error lower ?src ?tgt"
      and np: "PUNCT \<notin> pos ` (set ?sr \<union> set ?tr)" and r: "?r = Inr ''PUNCT''"
    show "is_punct_error lower ?src ?tgt"
    proof (rule ccontr)
      assume npe: "\<not> is_punct_error lower ?src ?tgt"
      then show False using no nw r n later[of "''PUNCT''"] no_punct[OF np, of "''PUNCT''"]
        by (cases "is_orth_error lower ?sr ?tr") auto
    qed
  qed (rule p)
  have c6: "\<not> is_orth_error lower ?src ?tgt \<Longrightarrow> \<not> is_wo_error lower ?src ?tgt
      \<Longrightarrow> \<not> is_punct_error lower ?src ?tgt \<Longrightarrow> NUM \<notin> pos ` (set ?sr \<union> set ?tr)
      \<Longrightarrow> (?r = Inr ''NUM'' \<longleftrightarrow> is_orth_error lower ?sr ?tr)"
  proof
    assume no: "\<not> is_orth_error lower ?src ?tgt" and nw: "\<not> is_wo_error lower ?src ?tgt"
      and npe: "\<not> is_punct_error lower ?src ?tgt"
      and nn: "NUM \<notin> pos ` (set ?sr \<union> set ?tr)" and r: "?r = Inr ''NUM''"
    show "is_orth_error lower ?sr ?tr"
    proof (rule ccontr)
      assume "\<not> is_orth_error lower ?sr ?tr"
      then show False using no nw npe r later[of "''NUM''"] no_num[OF nn, of "''NUM''"] by auto
    qed
  qed (rule n)
  show ?thesis using c1 c2 p n c5 c6 by blast
qed

lemma case_edit_facts:
  "is_orth_error ascii_lower (span_tokens (source_span case_edit)) (span_tokens (target_span case_edit))"
  unfolding case_edit_def sample_edit_spans span_tokens_whole by code_simp

lemma accent_case_edit_facts:
  "is_orth_error codepoint_lower (span_tokens (source_span accent_case_edit))
     (span_tokens (target_span accent_case_edit))"
  unfolding accent_case_edit_def sample_edit_spans span_tokens_whole
  by (simp add: is_orth_error_def lower_text_def codepoint_lower_def sample_token_def)

lemma order_edit_facts:
  "\<not> is_orth_error ascii_lower (span_tokens (source_span order_edit)) (span_tokens (target_span order_edit))"
  "is_wo_error ascii_lower (span_tokens (source_span order_edit)) (span_tokens (target_span order_edit))"
  unfolding order_edit_def sample_edit_spans span_tokens_whole by code_simp+

lemma comma_edit_facts:
  "\<not> is_orth_error ascii_lower (span_tokens (source_span comma_edit)) (span_tokens (target_span comma_edit))"
  "\<not> is_wo_error ascii_lower (span_tokens (source_span comma_edit)) (span_tokens (target_span comma_edit))"
  "is_punct_error ascii_lower (span_tokens (source_span comma_edit)) (span_tokens (target_span comma_edit))"
  unfolding comma_edit_def sample_edit_spans span_tokens_whole by code_simp+

lemma digit_edit_facts:
  "\<not> is_orth_error ascii_lower (span_tokens (source_span digit_edit)) (span_tokens (target_span digit_edit))"
  "\<not> is_wo_error ascii_lower (span_tokens (source_span digit_edit)) (span_tokens (target_span digit_edit))"
  "\<not> is_punct_error ascii_lower (span_tokens (source_span digit_edit)) (span_tokens (target_span digit_edit))"
  "is_orth_error ascii_lower (get_regular_tokens (span_tokens (source_span digit_edit)))
     (get_regular_tokens (span_tokens (target_span digit_edit)))"
  unfolding digit_edit_def sample_edit_spans span_tokens_whole by code_simp+

lemma verb_edit_facts:
  "\<not> is_orth_error ascii_lower (span_tokens (source_span verb_edit)) (span_tokens (target_span verb_edit))"
  "\<not> is_wo_error ascii_lower (span_tokens (source_span verb_edit)) (span_tokens (target_span verb_edit))"
  "\<not> is_punct_error ascii_lower (span_tokens (source_span verb_edit)) (span_tokens (target_span verb_edit))"
  "\<not> is_orth_error ascii_lower (get_regular_tokens (span_tokens (source_span verb_edit)))
     (get_regular_tokens (span_tokens (target_span verb_edit)))"
  unfolding verb_edit_def sample_edit_spans span_tokens_whole by code_simp+

lemma verb_edit_pos:
  "PUNCT \<notin> pos ` (set (get_regular_tokens (span_tokens (source_span verb_edit)))
                   \<union> set (get_regular_tokens (span_tokens (target_span verb_edit))))"
  "NUM \<notin> pos ` (set (get_regular_tokens (span_tokens (source_span verb_edit)))
                 \<union> set (get_regular_tokens (span_tokens (target_span verb_edit))))"
  by (simp_all add: verb_edit_def get_regular_tokens_def sample_token_def)

theorem classify_single_span_cascade_witness:
  "classify_single_span ascii_lower None case_edit = Inr ''ORTH''
   \<and> classify_single_span codepoint_lower None accent_case_edit = Inr ''ORTH''
   \<and> classify_single_span ascii_lower None order_edit = Inr ''WO''
   \<and> classify_single_span ascii_lower None comma_edit = Inr ''PUNCT''
   \<and> classify_single_span ascii_lower None digit_edit = Inr ''NUM''
   \<and> classify_single_span ascii_lower None verb_edit \<noteq> Inr ''PUNCT''
   \<and> classify_single_span ascii_lower None verb_edit \<noteq> Inr ''NUM''"
proof -
  have 0: "classify_single_span codepoint_lower None accent_case_edit = Inr ''ORTH''"
    using classify_single_span_cascade[where lower = codepoint_lower and aspell = None
        and e = accent_case_edit] accent_case_edit_facts by simp
  have 1: "classify_single_span ascii_lower None case_edit = Inr ''ORTH''"
    using classify_single_span_cascade[where lower = ascii_lower and aspell = None
        and e = case_edit] case_edit_facts by simp
  have 2: "classify_single_span ascii_lower None order_edit = Inr ''WO''"
    using classify_single_span_cascade[where lower = ascii_lower and aspell = None
        and e = order_edit] order_edit_facts by simp
  have 3: "classify_single_span ascii_lower None comma_edit = Inr ''PUNCT''"
    using classify_single_span_cascade[where lower = ascii_lower and aspell = None
        and e = comma_edit] comma_edit_facts by simp
  have 4: "classify_single_span ascii_lower None digit_edit = Inr ''NUM''"
    using classify_single_span_cascade[where lower = ascii_lower and aspell = None
        and e = digit_edit] digit_edit_facts by simp
  have 5: "classify_single_span ascii_lower None verb_edit \<noteq> Inr ''PUNCT''"
    using classify_single_span_cascade[where lower = ascii_lower and aspell = None
        and e = verb_edit, THEN conjunct2, THEN conjunct2,
        THEN conjunct2, THEN conjunct2, THEN conjunct1] verb_edit_facts verb_edit_pos
    by simp
  have 6: "classify_single_span ascii_lower None verb_edit \<noteq> Inr ''NUM''"
    using classify_single_span_cascade[where lower = ascii_lower and aspell = None
        and e = verb_edit, THEN conjunct2, THEN conjunct2,
        THEN conjunct2, THEN conjunct2, THEN conjunct2] verb_edit_facts verb_edit_pos
    by simp
  show ?thesis using 0 1 2 3 4 5 6 by simp
qed

lemma number_word_aligned:
  "get_edit_spans ascii_lower number_word_source number_word_target = [number_word_span]"
  by code_simp

lemma number_word_tokens:
  "span_tokens (source_span number_word_span) = []"
  "span_tokens (target_span number_word_span) = [sample_token ''three'' 12 NUM]"
  by (simp_all add: number_word_span_def new_EditSpan_def doc_slice_def span_tokens_def
      number_word_source_def number_word_target_def doc_of_tokens_def)

lemma number_word_regular:
  "get_regular_tokens [sample_token ''three'' 12 NUM] = [sample_token ''three'' 12 NUM]"
  by (simp add: get_regular_tokens_def sample_token_def)

theorem number_word_counterexample:
  "get_edit_spans ascii_lower number_word_source number_word_target = [number_word_span]
   \<and> \<not> is_orth_error ascii_lower (span_tokens (source_span number_word_span))
          (span_tokens (target_span number_word_span))
   \<and> \<not> is_wo_error ascii_lower (span_tokens (source_span number_word_span))
          (span_tokens (target_span number_word_span))
   \<and> \<not> is_punct_error ascii_lower (span_tokens (source_span number_word_span))
          (span_tokens (target_span number_word_span))
   \<and> \<not> is_orth_error ascii_lower (get_regular_tokens (span_tokens (source_span number_word_span)))
          (get_regular_tokens (span_tokens (target_span number_word_span)))
   \<and> classify_single_span ascii_lower None number_word_span = Inr ''NUM''"
proof -
  let ?three = "sample_token ''three'' 12 NUM"
  have lt: "lower_text ascii_lower ?three \<noteq> []" by (simp add: lower_text_def ascii_lower_def sample_token_def)
  have np: "get_nonpunct_tokens [?three] = [?three]"
    by (simp add: get_nonpunct_tokens_def sample_token_def)
  have o: "\<not> is_orth_error ascii_lower [] [?three]" using lt by (simp add: is_orth_error_def)
  have w: "\<not> is_wo_error ascii_lower [] [?three]" by (simp add: is_wo_error_def)
  have p: "\<not> is_punct_error ascii_lower [] [?three]"
    using lt by (simp add: is_punct_error_def get_nonpunct_tokens_def is_orth_error_def
        sample_token_def)
  have r: "get_regular_tokens [] = []" by (simp add: get_regular_tokens_def)
  have a: "\<not> is_aux_span [?three]" by (simp add: is_aux_span_iff sample_token_def)
  have t: "get_one_sided_tag [?three] = ''NUM''"
    using a by (simp add: get_one_sided_tag_def pos_str_def sample_token_def)
  have c: "classify_single_span ascii_lower None number_word_span = Inr ''NUM''"
    unfolding classify_single_span_def Let_def number_word_tokens
    using o w p by (simp add: r number_word_regular t)
  show ?thesis using number_word_aligned o w p c
    by (simp add: number_word_tokens r number_word_regular)
qed

text \<open>
  Claim C10. When every token on both sides of a span is a punctuation token or a digit
  token, \<open>classify_single_span\<close> returns one of ORTH, WO, PUNCT, NUM. The one-sided,
  one-to-one and two-sided rules are never called when both regular-token lists are
  empty, and the one-sided rule is always called with a non-empty token list.
\<close>

theorem punct_digit_spans_end_early:
  "classify_single_span lower aspell e = run_rule lower aspell (rule_invoked lower e)
   \<and> ((\<forall>tok\<in>set (span_tokens (source_span e)) \<union> set (span_tokens (target_span e)).
          is_punct tok \<or> is_digit tok)
       \<longrightarrow> classify_single_span lower aspell e \<in> {Inr ''ORTH'', Inr ''WO'', Inr ''PUNCT'', Inr ''NUM''}
           \<and> rule_invoked lower e \<in> {RuleORTH, RuleWO, RulePUNCT, RuleNUM})
   \<and> (get_regular_tokens (span_tokens (source_span e)) = []
       \<and> get_regular_tokens (span_tokens (target_span e)) = []
       \<longrightarrow> rule_invoked lower e \<in> {RuleORTH, RuleWO, RulePUNCT, RuleNUM})
   \<and> (\<forall>toks. rule_invoked lower e = OneSided toks \<longrightarrow> toks \<noteq> [])"
proof -
  let ?src = "span_tokens (source_span e)" and ?tgt = "span_tokens (target_span e)"
  have both: "get_regular_tokens ?src = [] \<and> get_regular_tokens ?tgt = []
      \<Longrightarrow> rule_invoked lower e \<in> {RuleORTH, RuleWO, RulePUNCT, RuleNUM}"
    by (simp add: rule_invoked_def Let_def is_orth_error_def)
  have reg: "(\<forall>tok\<in>set ?src \<union> set ?tgt. is_punct tok \<or> is_digit tok)
      \<Longrightarrow> get_regular_tokens ?src = [] \<and> get_regular_tokens ?tgt = []"
    by (auto simp: get_regular_tokens_def filter_empty_conv)
  have run: "classify_single_span lower aspell e = run_rule lower aspell (rule_invoked lower e)"
    by (rule classify_single_span_run_rule)
  have early: "rule_invoked lower e \<in> {RuleORTH, RuleWO, RulePUNCT, RuleNUM}
      \<Longrightarrow> classify_single_span lower aspell e \<in> {Inr ''ORTH'', Inr ''WO'', Inr ''PUNCT'', Inr ''NUM''}"
    unfolding run by auto
  have one: "\<And>toks. rule_invoked lower e = OneSided toks \<Longrightarrow> toks \<noteq> []"
    by (auto simp: rule_invoked_def Let_def is_orth_error_def split: if_splits)
  show ?thesis using both reg run early one by blast
qed

theorem punct_digit_spans_end_early_witness:
  "classify_single_span ascii_lower None digit_edit \<in> {Inr ''ORTH'', Inr ''WO'', Inr ''PUNCT'', Inr ''NUM''}
   \<and> rule_invoked ascii_lower digit_edit \<in> {RuleORTH, RuleWO, RulePUNCT, RuleNUM}
   \<and> rule_invoked ascii_lower number_word_span = OneSided [sample_token ''three'' 12 NUM]
   \<and> [sample_token ''three'' 12 NUM] \<noteq> []"
proof -
  have d: "span_tokens (source_span digit_edit) = [sample_digit ''3'' 17]"
    "span_tokens (target_span digit_edit) = [sample_digit ''4'' 18]"
    by (simp_all add: digit_edit_def)
  have all_digits: "\<forall>tok\<in>set (span_tokens (source_span digit_edit))
                 \<union> set (span_tokens (target_span digit_edit)). is_punct tok \<or> is_digit tok"
    by (simp add: d sample_digit_def)
  have 1: "classify_single_span ascii_lower None digit_edit
        \<in> {Inr ''ORTH'', Inr ''WO'', Inr ''PUNCT'', Inr ''NUM''}
      \<and> rule_invoked ascii_lower digit_edit \<in> {RuleORTH, RuleWO, RulePUNCT, RuleNUM}"
    by (rule punct_digit_spans_end_early[where lower = ascii_lower and aspell = None
          and e = digit_edit, THEN conjunct2, THEN conjunct1,
          THEN mp, OF all_digits])
  have o: "rule_invoked ascii_lower number_word_span = OneSided [sample_token ''three'' 12 NUM]"
    by code_simp
  have 2: "[sample_token ''three'' 12 NUM] \<noteq> []"
    by (rule punct_digit_spans_end_early[where lower = ascii_lower and aspell = None
          and e = number_word_span, THEN conjunct2,
          THEN conjunct2, THEN conjunct2, rule_format, OF o])
  show ?thesis using 1 o 2 by simp
qed

section \<open>Properties of the annotator\<close>

lemma classify_spans_total:
  "\<exists>out. classify_spans lower aspell spans = Inr out \<and> length out = length spans"
proof (induction spans)
  case Nil
  then show ?case by simp
next
  case (Cons e spans)
  obtain tg where tg: "classify_single_span lower aspell e = Inr tg"
    using classify_single_span_total by blast
  obtain out where out: "classify_spans lower aspell spans = Inr out" "length out = length spans"
    using Cons.IH by blast
  show ?case by (simp add: tg out)
qed

lemma classify_total: "\<exists>out. classify lower aspell S T = Inr out"
  using classify_spans_total[where lower = lower and aspell = aspell
      and spans = "get_edit_spans lower S T"]
  by (auto simp: classify_def)

lemma annotate_targets_total:
  "\<exists>tss. annotate_targets lower tokenize (Some c) sd ts = Inr tss \<and> length tss = length ts"
proof (induction ts)
  case Nil
  then show ?case by simp
next
  case (Cons t ts)
  obtain spans where sp: "classify lower (cls_aspell c) sd (tokenize t) = Inr spans"
    using classify_total by blast
  obtain tss where tss: "annotate_targets lower tokenize (Some c) sd ts = Inr tss"
    "length tss = length ts"
    using Cons.IH by blast
  show ?case by (simp add: Let_def sp tss)
qed

text \<open>
  Claim C8. \<open>annotate\<close> raises the not-initialized \<^verbatim>\<open>ValueError\<close> whenever the annotator
  is not initialized, in particular on a new annotator; a single string as
  \<^verbatim>\<open>target_sentences\<close> always raises a \<^verbatim>\<open>ValueError\<close>, the must-be-a-list one once the
  annotator is initialized; and after \<open>initialize\<close>, with a sequence of strings,
  \<open>annotate\<close> returns an annotation with one target sentence for each string.
\<close>

theorem annotate_errors:
  "(\<not> initialized a
      \<longrightarrow> annotate lower a source_sentence targets = Inl (ValueError ''Annotator not initialized.''))
   \<and> annotate lower (new_Annotator model lang) source_sentence targets
       = Inl (ValueError ''Annotator not initialized.'')
   \<and> (\<exists>msg. annotate lower a source_sentence (SingleString s) = Inl (ValueError msg))
   \<and> (initialized a
      \<longrightarrow> annotate lower a source_sentence (SingleString s)
          = Inl (ValueError ''target_sentences must be a list, not a string.''))
   \<and> annotate lower (initialize load_spacy load_aspell a) source_sentence (SingleString s)
       = Inl (ValueError ''target_sentences must be a list, not a string.'')
   \<and> (\<exists>ann. annotate lower (initialize load_spacy load_aspell a) source_sentence (StringSeq ts)
               = Inr ann
             \<and> source_doc ann = load_spacy (spacy_model a) source_sentence
             \<and> length (target_sentences ann) = length ts)"
proof -
  have 1: "\<not> initialized a
      \<Longrightarrow> annotate lower a source_sentence targets = Inl (ValueError ''Annotator not initialized.'')"
    by (simp add: annotate_def)
  have 2: "annotate lower (new_Annotator model lang) source_sentence targets
       = Inl (ValueError ''Annotator not initialized.'')"
    by (simp add: annotate_def new_Annotator_def)
  have 4: "initialized a
      \<Longrightarrow> annotate lower a source_sentence (SingleString s)
          = Inl (ValueError ''target_sentences must be a list, not a string.'')"
    by (simp add: annotate_def)
  have 3: "\<exists>msg. annotate lower a source_sentence (SingleString s) = Inl (ValueError msg)"
    by (simp add: annotate_def)
  have 5: "annotate lower (initialize load_spacy load_aspell a) source_sentence (SingleString s)
       = Inl (ValueError ''target_sentences must be a list, not a string.'')"
    by (simp add: annotate_def initialize_def)
  let ?c = "classifier_initialize load_aspell (new_GenericClassifier (aspell_lang a))"
  let ?tok = "load_spacy (spacy_model a)"
  obtain tss where tss: "annotate_targets lower ?tok (Some ?c) (?tok source_sentence) ts = Inr tss"
    "length tss = length ts"
    using annotate_targets_total by blast
  have 6: "\<exists>ann. annotate lower (initialize load_spacy load_aspell a) source_sentence (StringSeq ts)
               = Inr ann
             \<and> source_doc ann = load_spacy (spacy_model a) source_sentence
             \<and> length (target_sentences ann) = length ts"
    by (simp add: annotate_def initialize_def Let_def tss)
  show ?thesis using 1 2 3 4 5 6 by blast
qed

theorem annotate_errors_witness:
  "annotate ascii_lower (new_Annotator ''en_core_web_sm'' (Some ''en'')) ''I goed home''
       (StringSeq [''I went home'']) = Inl (ValueError ''Annotator not initialized.'')
   \<and> annotate ascii_lower (initialize sample_load_spacy sample_load_aspell
         (new_Annotator ''en_core_web_sm'' (Some ''en''))) ''I goed home''
       (SingleString ''I went home'')
       = Inl (ValueError ''target_sentences must be a list, not a string.'')
   \<and> \<not> isl (annotate ascii_lower (initialize sample_load_spacy sample_load_aspell
         (new_Annotator ''en_core_web_sm'' (Some ''en''))) ''I goed home''
       (StringSeq [''I went home'']))"
proof -
  let ?a = "new_Annotator ''en_core_web_sm'' (Some ''en'')"
  have i: "\<not> initialized ?a" by (simp add: new_Annotator_def)
  have j: "initialized (initialize sample_load_spacy sample_load_aspell ?a)"
    by (simp add: initialize_def)
  have 1: "annotate ascii_lower ?a ''I goed home'' (StringSeq [''I went home''])
      = Inl (ValueError ''Annotator not initialized.'')"
    using annotate_errors[where a = ?a and source_sentence = "''I goed home''"
        and targets = "StringSeq [''I went home'']"] i by blast
  have 2: "annotate ascii_lower (initialize sample_load_spacy sample_load_aspell ?a) ''I goed home''
       (SingleString ''I went home'')
       = Inl (ValueError ''target_sentences must be a list, not a string.'')"
    using annotate_errors[where a = "initialize sample_load_spacy sample_load_aspell ?a"
        and source_sentence = "''I goed home''" and s = "''I went home''"] j by blast
  have 3: "\<not> isl (annotate ascii_lower (initialize sample_load_spacy sample_load_aspell ?a) ''I goed home''
       (StringSeq [''I went home'']))"
  proof -
    obtain ann where
      "annotate ascii_lower (initialize sample_load_spacy sample_load_aspell ?a) ''I goed home''
         (StringSeq [''I went home'']) = Inr ann"
      using annotate_errors[where a = ?a and source_sentence = "''I goed home''"
          and load_spacy = sample_load_spacy and load_aspell = sample_load_aspell
          and ts = "[''I went home'']", THEN conjunct2, THEN conjunct2, THEN conjunct2,
          THEN conjunct2, THEN conjunct2]
      by blast
    then show ?thesis by simp
  qed
  show ?thesis using 1 2 3 by simp
qed

section \<open>Properties of the formatters\<close>

declare decimal.simps [simp del]

lemma digit_char_in: "d < 10 \<Longrightarrow> digit_char d \<in> set ''0123456789''"
proof -
  assume "d < 10"
  then have "d < length ''0123456789''" by simp
  then show ?thesis unfolding digit_char_def by (rule nth_mem)
qed

lemma decimal_chars: "set (decimal n) \<subseteq> set ''0123456789''"
proof (induction n rule: decimal.induct)
  case (1 n)
  show ?case
  proof (cases "10 \<le> n")
    case True
    have "n mod 10 < 10" by simp
    then have "digit_char (n mod 10) \<in> set ''0123456789''" by (rule digit_char_in)
    then show ?thesis using "1.IH"[OF True] True by (subst decimal.simps) simp
  next
    case False
    then have "digit_char n \<in> set ''0123456789''" by (intro digit_char_in) simp
    then show ?thesis using False by (subst decimal.simps) simp
  qed
qed

lemma format_d_chars: "set (format_d i) \<subseteq> set ''-0123456789''"
proof -
  have sub: "set ''0123456789'' \<subseteq> set ''-0123456789''" by (rule set_subset_Cons)
  have minus: "CHR ''-'' \<in> set ''-0123456789''" by simp
  show ?thesis
  proof (cases "0 \<le> i")
    case True
    then have eq: "format_d i = decimal (nat i)" by (simp add: format_d_def)
    have "set (decimal (nat i)) \<subseteq> set ''-0123456789''"
      using decimal_chars[of "nat i"] sub by (rule subset_trans)
    then show ?thesis by (simp only: eq)
  next
    case False
    then have "format_d i = CHR ''-'' # decimal (nat (- i))" by (simp add: format_d_def)
    then have eq: "set (format_d i) = insert CHR ''-'' (set (decimal (nat (- i))))" by simp
    have "set (decimal (nat (- i))) \<subseteq> set ''-0123456789''"
      using decimal_chars[of "nat (- i)"] sub by (rule subset_trans)
    then have "insert CHR ''-'' (set (decimal (nat (- i)))) \<subseteq> set ''-0123456789''"
      using minus by blast
    then show ?thesis by (simp only: eq)
  qed
qed

lemma split_at_separator:
  assumes "xs @ c # r = ys @ c # r'" "c \<notin> set xs" "c \<notin> set ys"
  shows "xs = ys \<and> r = r'"
  using assms
proof (induction xs arbitrary: ys)
  case Nil
  then show ?case by (cases ys) auto
next
  case (Cons x xs)
  then show ?case by (cases ys) auto
qed

lemma get_label_first: "\<exists>ch rest. get_label e = ch # rest \<and> ch \<in> {CHR ''U'', CHR ''M'', CHR ''R''}"
  by (simp add: get_label_def)

lemma M2_LINE_not_noop: "M2_LINE s e (get_label sp) txt i \<noteq> NOOP_M2_LINE j"
proof
  assume eq: "M2_LINE s e (get_label sp) txt i = NOOP_M2_LINE j"
  obtain ch rest where l: "get_label sp = ch # rest" "ch \<in> {CHR ''U'', CHR ''M'', CHR ''R''}"
    using get_label_first by blast
  let ?tail = "rest @ ''|||'' @ txt @ ''|||REQUIRED|||-NONE-|||'' @ format_d i"
  let ?ntail = "''oop|||-NONE-|||REQUIRED|||-NONE-|||'' @ format_d j"
  have "CHR '' '' \<notin> set ''-0123456789''" by simp
  then have sp_s: "CHR '' '' \<notin> set (format_d s)" using format_d_chars[of s] by blast
  have "CHR ''|'' \<notin> set ''-0123456789''" by simp
  then have bar_e: "CHR ''|'' \<notin> set (format_d e)" using format_d_chars[of e] by blast
  have "format_d s @ CHR '' '' # (format_d e @ ''|||'' @ ch # ?tail)
      = ''-1'' @ CHR '' '' # (''-1|||n'' @ ?ntail)"
    using eq by (simp add: M2_LINE_def NOOP_M2_LINE_def l)
  from split_at_separator[OF this sp_s] have
    "format_d e @ CHR ''|'' # (''||'' @ ch # ?tail) = ''-1'' @ CHR ''|'' # (''||n'' @ ?ntail)"
    by simp
  from split_at_separator[OF this bar_e] have "ch = CHR ''n''" by simp
  then show False using l(2) by simp
qed

lemma char_lines_no_noop:
  "edit_spans t \<noteq> [] \<Longrightarrow> NOOP_M2_LINE j \<notin> set (m2_char_target_lines api (i, t))"
  by (auto simp: m2_char_target_lines_def m2_char_span_line_def Let_def
      M2_LINE_not_noop[symmetric])

lemma tok_lines_no_noop:
  "edit_spans t \<noteq> [] \<Longrightarrow> NOOP_M2_LINE j \<notin> set (m2_tok_target_lines api (i, t))"
  by (auto simp: m2_tok_target_lines_def m2_tok_span_line_def Let_def
      M2_LINE_not_noop[symmetric])

lemma join_snoc_empty: "xs \<noteq> [] \<Longrightarrow> join sep (xs @ [[]]) = join sep xs @ sep"
  by (induction sep xs rule: join.induct) auto

lemma format_d_0: "format_d 0 = ''0''"
  by (simp add: format_d_def digit_char_def decimal.simps)

text \<open>
  Claim C9. For every annotation both M2 formatters emit, for each target sentence
  without edit spans, exactly the one line
  \<^verbatim>\<open>A -1 -1|||noop|||-NONE-|||REQUIRED|||-NONE-|||<annotator_id>\<close> with the target's
  zero-based index, and no such line for a target that has edit spans; the output ends
  with the separator that follows the last line; and an annotation with one target
  without edit spans is rendered as the \<^verbatim>\<open>S\<close> line and the no-op line with annotator
  id 0, each followed by a newline.
\<close>

theorem m2_noop_line:
  "(\<forall>i<length (target_sentences ann). edit_spans (target_sentences ann ! i) = [] \<longrightarrow>
      m2_char_target_lines api (i, target_sentences ann ! i)
        = [''A -1 -1|||noop|||-NONE-|||REQUIRED|||-NONE-|||'' @ format_d (int i)]
      \<and> m2_tok_target_lines api (i, target_sentences ann ! i)
        = [''A -1 -1|||noop|||-NONE-|||REQUIRED|||-NONE-|||'' @ format_d (int i)])
   \<and> (\<forall>i<length (target_sentences ann). edit_spans (target_sentences ann ! i) \<noteq> [] \<longrightarrow>
        (\<forall>j. NOOP_M2_LINE j \<notin> set (m2_char_target_lines api (i, target_sentences ann ! i))
           \<and> NOOP_M2_LINE j \<notin> set (m2_tok_target_lines api (i, target_sentences ann ! i))))
   \<and> M2CharFormatter_format api ann
       = join [CHR 0x0A]
           ((''S '' @ doc_text (source_doc ann))
            # concat (map (m2_char_target_lines api) (enumerate 0 (target_sentences ann))))
         @ [CHR 0x0A]
   \<and> M2TokFormatter_format api ann
       = join [CHR 0x0A]
           ((''S '' @ join '' '' (map tok_text (doc_tokens (source_doc ann))))
            # concat (map (m2_tok_target_lines api) (enumerate 0 (target_sentences ann))))
         @ [CHR 0x0A]
   \<and> ((\<exists>t. target_sentences ann = [t] \<and> edit_spans t = []) \<longrightarrow>
        M2CharFormatter_format api ann
          = ''S '' @ doc_text (source_doc ann) @ [CHR 0x0A]
            @ ''A -1 -1|||noop|||-NONE-|||REQUIRED|||-NONE-|||0'' @ [CHR 0x0A]
        \<and> M2TokFormatter_format api ann
          = ''S '' @ join '' '' (map tok_text (doc_tokens (source_doc ann))) @ [CHR 0x0A]
            @ ''A -1 -1|||noop|||-NONE-|||REQUIRED|||-NONE-|||0'' @ [CHR 0x0A])"
proof -
  have a: "\<And>i t. edit_spans t = [] \<Longrightarrow>
      m2_char_target_lines api (i, t)
        = [''A -1 -1|||noop|||-NONE-|||REQUIRED|||-NONE-|||'' @ format_d (int i)]
      \<and> m2_tok_target_lines api (i, t)
        = [''A -1 -1|||noop|||-NONE-|||REQUIRED|||-NONE-|||'' @ format_d (int i)]"
    by (simp add: m2_char_target_lines_def m2_tok_target_lines_def NOOP_M2_LINE_def)
  have b: "\<And>i t j. edit_spans t \<noteq> [] \<Longrightarrow>
      NOOP_M2_LINE j \<notin> set (m2_char_target_lines api (i, t))
      \<and> NOOP_M2_LINE j \<notin> set (m2_tok_target_lines api (i, t))"
    using char_lines_no_noop tok_lines_no_noop by blast
  have c: "M2CharFormatter_format api ann
       = join [CHR 0x0A]
           ((''S '' @ doc_text (source_doc ann))
            # concat (map (m2_char_target_lines api) (enumerate 0 (target_sentences ann))))
         @ [CHR 0x0A]"
    using join_snoc_empty[of "(''S '' @ doc_text (source_doc ann))
            # concat (map (m2_char_target_lines api) (enumerate 0 (target_sentences ann)))"
        "[CHR 0x0A]"]
    by (simp add: M2CharFormatter_format_def M2CharFormatter_lines_def)
  have d: "M2TokFormatter_format api ann
       = join [CHR 0x0A]
           ((''S '' @ join '' '' (map tok_text (doc_tokens (source_doc ann))))
            # concat (map (m2_tok_target_lines api) (enumerate 0 (target_sentences ann))))
         @ [CHR 0x0A]"
    using join_snoc_empty[of "(''S '' @ join '' '' (map tok_text (doc_tokens (source_doc ann))))
            # concat (map (m2_tok_target_lines api) (enumerate 0 (target_sentences ann)))"
        "[CHR 0x0A]"]
    by (simp add: M2TokFormatter_format_def M2TokFormatter_lines_def)
  have e: "(\<exists>t. target_sentences ann = [t] \<and> edit_spans t = []) \<Longrightarrow>
        M2CharFormatter_format api ann
          = ''S '' @ doc_text (source_doc ann) @ [CHR 0x0A]
            @ ''A -1 -1|||noop|||-NONE-|||REQUIRED|||-NONE-|||0'' @ [CHR 0x0A]
        \<and> M2TokFormatter_format api ann
          = ''S '' @ join '' '' (map tok_text (doc_tokens (source_doc ann))) @ [CHR 0x0A]
            @ ''A -1 -1|||noop|||-NONE-|||REQUIRED|||-NONE-|||0'' @ [CHR 0x0A]"
  proof -
    assume "\<exists>t. target_sentences ann = [t] \<and> edit_spans t = []"
    then obtain t where t: "target_sentences ann = [t]" "edit_spans t = []" by blast
    show ?thesis unfolding c d using a[OF t(2), of 0] by (simp add: t(1) format_d_0)
  qed
  show ?thesis using a b c d e by blast
qed

theorem m2_noop_line_witness:
  "m2_char_target_lines sample_api (0, target_sentences unchanged_annotation ! 0)
     = [''A -1 -1|||noop|||-NONE-|||REQUIRED|||-NONE-|||0'']
   \<and> M2CharFormatter_format sample_api unchanged_annotation
     = ''S I goed home'' @ [CHR 0x0A]
       @ ''A -1 -1|||noop|||-NONE-|||REQUIRED|||-NONE-|||0'' @ [CHR 0x0A]
   \<and> M2TokFormatter_format sample_api unchanged_annotation
     = ''S I goed home'' @ [CHR 0x0A]
       @ ''A -1 -1|||noop|||-NONE-|||REQUIRED|||-NONE-|||0'' @ [CHR 0x0A]
   \<and> NOOP_M2_LINE 0
       \<notin> set (m2_char_target_lines sample_api (0, target_sentences changed_annotation ! 0))"
proof -
  have u: "\<exists>t. target_sentences unchanged_annotation = [t] \<and> edit_spans t = []"
    by (simp add: unchanged_annotation_def)
  have u0: "0 < length (target_sentences unchanged_annotation)"
    "edit_spans (target_sentences unchanged_annotation ! 0) = []"
    by (simp_all add: unchanged_annotation_def)
  have dtxt: "doc_text (source_doc unchanged_annotation) = ''I goed home''"
    by (simp add: unchanged_annotation_def sample_source_def)
  have toks: "join '' '' (map tok_text (doc_tokens (source_doc unchanged_annotation)))
      = ''I goed home''"
    by (simp add: unchanged_annotation_def sample_source_def sample_token_def)
  note first = m2_noop_line[where ann = unchanged_annotation and api = sample_api,
      THEN conjunct1, rule_format, OF u0]
  have 0: "m2_char_target_lines sample_api (0, target_sentences unchanged_annotation ! 0)
     = [''A -1 -1|||noop|||-NONE-|||REQUIRED|||-NONE-|||0'']"
    using first[THEN conjunct1] by (simp add: format_d_0)
  note lastc = m2_noop_line[where ann = unchanged_annotation and api = sample_api,
      THEN conjunct2, THEN conjunct2, THEN conjunct2, THEN conjunct2, rule_format, OF u]
  have 1: "M2CharFormatter_format sample_api unchanged_annotation
     = ''S I goed home'' @ [CHR 0x0A]
       @ ''A -1 -1|||noop|||-NONE-|||REQUIRED|||-NONE-|||0'' @ [CHR 0x0A]"
    using lastc[THEN conjunct1] by (simp add: dtxt)
  have 2: "M2TokFormatter_format sample_api unchanged_annotation
     = ''S I goed home'' @ [CHR 0x0A]
       @ ''A -1 -1|||noop|||-NONE-|||REQUIRED|||-NONE-|||0'' @ [CHR 0x0A]"
    using lastc[THEN conjunct2] by (simp add: toks)
  have c: "0 < length (target_sentences changed_annotation)"
    "edit_spans (target_sentences changed_annotation ! 0) \<noteq> []"
    by (simp_all add: changed_annotation_def)
  note second = m2_noop_line[where ann = changed_annotation and api = sample_api,
      THEN conjunct2, THEN conjunct1, rule_format, OF c]
  have 3: "NOOP_M2_LINE 0
       \<notin> set (m2_char_target_lines sample_api (0, target_sentences changed_annotation ! 0))"
    using second[of 0] by (rule conjunct1)
  show ?thesis using 0 1 2 3 by (intro conjI)
qed

end
